theory Spec2Isabelle
  imports Complex_Main "HOL-Library.Word"
begin

unbundle bit_operations_syntax

section \<open>Machine types, faults and C strings\<close>

text \<open>
  The firmware runs on a 32-bit Cortex-M33: \<open>int16_t\<close>, \<open>uint8_t\<close>, \<open>uint16_t\<close> and
  \<open>uint32_t\<close> are words of that width. Sizes and indices that the code keeps far below
  \<open>2^32\<close> (\<open>size_t idx\<close>, \<open>g_ble_len\<close>, \<open>len\<close>) are natural numbers. An access outside
  an array, or a division by zero, is undefined in C; the model returns it as a fault.
\<close>

type_synonym int16_t = "16 word"
type_synonym uint8_t = "8 word"
type_synonym uint16_t = "16 word"
type_synonym uint32_t = "32 word"

datatype fault =
    ReadOutOfBounds nat
  | StoreOutOfBounds nat
  | DivisionByZero
  | NoBufferAssigned

text \<open>
  A \<open>double\<close>: a finite value (the real number it denotes), an infinity or a NaN.
  \<open>double_le\<close> is the comparison \<open><=\<close> of C on doubles: false as soon as one side is NaN.
\<close>

datatype double = Finite real | PlusInf | MinusInf | NaN

fun double_le :: "double \<Rightarrow> double \<Rightarrow> bool" where
  "double_le NaN y = False"
| "double_le x NaN = False"
| "double_le MinusInf y = True"
| "double_le x PlusInf = True"
| "double_le (Finite a) (Finite b) = (a \<le> b)"
| "double_le PlusInf y = False"
| "double_le (Finite a) MinusInf = False"

text \<open>\<open>x >= y\<close> on doubles.\<close>

definition double_ge :: "double \<Rightarrow> double \<Rightarrow> bool" where
  "double_ge x y = double_le y x"

text \<open>The character literal \<open>'c'\<close> as a byte, and a string literal as bytes.\<close>

definition chr :: "char \<Rightarrow> uint8_t" where
  "chr c = of_char c"

definition bytes :: "string \<Rightarrow> uint8_t list" where
  "bytes cs = map of_char cs"

text \<open>
  The C string that starts at \<open>&a[k]\<close>: the bytes before the first NUL. Without a NUL in
  the rest of the array the reader runs past its end.
\<close>

definition c_str :: "uint8_t list \<Rightarrow> nat \<Rightarrow> fault + uint8_t list" where
  "c_str a k =
     (if 0 \<in> set (drop k a) then Inr (takeWhile (\<lambda>c. c \<noteq> 0) (drop k a))
      else Inl (ReadOutOfBounds (length a)))"

section \<open>bluetooth.c\<close>

definition RECEIVE_BUFF_SIZE :: nat where
  "RECEIVE_BUFF_SIZE = 20"

text \<open>\<open>BT_GATT_CCC_NOTIFY\<close> of the Bluetooth stack's headers.\<close>

definition BT_GATT_CCC_NOTIFY :: uint16_t where
  "BT_GATT_CCC_NOTIFY = 1"

text \<open>
  The collaborators of other modules that the write callback invokes (\<open>dds.h\<close>,
  \<open>gpio.h\<close>): the model records each invocation with its arguments, in order.
\<close>

datatype collab_call =
    ChangeDDSVal uint16_t
  | SetDdsAmplification double
  | SetDdsOffset double
  | ConfigurePga int int
  | DigipotWiperSet int int
  | SetMux int
  | SetSignalChainOffset double
  | SetSignalChainAmplification double
  | StartDds int
  | DdsSleep
  | PowerUp
  | PowerDown

text \<open>
  The static variables of bluetooth.c, the invocations of the collaborators
  (\<open>collab_calls\<close>) and the payloads handed to \<open>bt_gatt_notify\<close> (\<open>notified\<close>).
\<close>

record ble_state =
  write_buffer :: "uint8_t list"
  digipot_channel :: int
  digipot_setting :: int
  pga_number :: int
  pga_setting :: int
  start_received :: bool
  on_received :: bool
  notify_enabled :: bool
  ble_connected :: bool
  collab_calls :: "collab_call list"
  notified :: "uint8_t list list"

definition ble_init :: ble_state where
  "ble_init =
     \<lparr> write_buffer = replicate RECEIVE_BUFF_SIZE 0,
       digipot_channel = 0, digipot_setting = 0, pga_number = 0, pga_setting = 0,
       start_received = False, on_received = False,
       notify_enabled = False, ble_connected = False,
       collab_calls = [], notified = [] \<rparr>"

text \<open>
  What the callback takes from outside the repository: \<open>atoi\<close> and \<open>atof\<close> of the C
  library (on the bytes of the C string they are given), and the two bounds that dds.h
  defines.
\<close>

record extern_env =
  atoi :: "uint8_t list \<Rightarrow> int"
  atof :: "uint8_t list \<Rightarrow> double"
  MIN_DDS_AMPLIFICATION :: double
  MAX_DDS_AMPLIFICATION :: double

text \<open>
  The value a call of the callback hands back: \<open>return len\<close>, or no value at all when
  control reaches the closing brace of the function.
\<close>

datatype retval = Returned int | NoReturnValue

text \<open>
  The chain of \<open>if\<close>/\<open>else if\<close> of \<open>write_custom_value\<close>, on the receive buffer \<open>wb\<close> after
  the copy and the terminator. \<open>len\<close> is the length of the write. printk and LOG output
  is not modelled.
\<close>

definition write_custom_value_dispatch ::
  "extern_env \<Rightarrow> ble_state \<Rightarrow> nat \<Rightarrow> fault + (retval \<times> ble_state)" where
  "write_custom_value_dispatch e s len =
    (let wb = write_buffer s in
     if wb ! 0 = chr CHR ''S'' \<and> wb ! 1 = chr CHR ''D'' \<and> wb ! 2 = chr CHR ''D'' \<and>
        wb ! 3 = chr CHR ''S'' \<and> wb ! 4 = chr CHR '':'' then
       (case c_str wb 5 of Inl f \<Rightarrow> Inl f
        | Inr str \<Rightarrow>
            let val = (word_of_int (atoi e str) :: uint16_t) in
            Inr (Returned (int len), s\<lparr>collab_calls := collab_calls s @ [ChangeDDSVal val]\<rparr>))
     else if wb ! 0 = chr CHR ''D'' \<and> wb ! 1 = chr CHR ''D'' \<and> wb ! 2 = chr CHR ''S'' \<and>
        wb ! 3 = chr CHR ''A'' \<and> wb ! 4 = chr CHR '':'' then
       (case c_str wb 5 of Inl f \<Rightarrow> Inl f
        | Inr str \<Rightarrow>
            let amplification = atof e str in
            if double_ge amplification (MIN_DDS_AMPLIFICATION e) \<and>
               double_le amplification (MAX_DDS_AMPLIFICATION e)
            then Inr (Returned (int len),
                      s\<lparr>collab_calls := collab_calls s @ [SetDdsAmplification amplification]\<rparr>)
            else Inr (Returned (int len), s))
     else if wb ! 0 = chr CHR ''D'' \<and> wb ! 1 = chr CHR ''D'' \<and> wb ! 2 = chr CHR ''S'' \<and>
        wb ! 3 = chr CHR ''O'' \<and> wb ! 4 = chr CHR '':'' then
       (case c_str wb 5 of Inl f \<Rightarrow> Inl f
        | Inr str \<Rightarrow>
            let offset = atof e str in
            if double_ge offset (Finite (- 3.3)) \<and> double_le offset (Finite 3.3)
            then Inr (Returned (int len),
                      s\<lparr>collab_calls := collab_calls s @ [SetDdsOffset offset]\<rparr>)
            else Inr (Returned (int len), s))
     else if wb ! 0 = chr CHR ''P'' \<and> wb ! 2 = chr CHR '':'' then
       (case c_str wb 3 of Inl f \<Rightarrow> Inl f
        | Inr str \<Rightarrow>
            let number = (word_of_int (uint (wb ! 1) - uint (chr CHR ''0'')) :: uint16_t);
                setting = (word_of_int (atoi e str) :: uint16_t) in
            if 1 \<le> uint number \<and> uint number \<le> 2 \<and> 0 \<le> uint setting \<and> uint setting \<le> 7
            then Inr (Returned (int len),
                      s\<lparr>pga_number := uint number, pga_setting := uint setting,
                        collab_calls := collab_calls s @ [ConfigurePga (uint number) (uint setting)]\<rparr>)
            else Inr (Returned (int len), s))
     else if wb ! 0 = chr CHR ''D'' \<and> wb ! 2 = chr CHR '':'' then
       (case c_str wb 3 of Inl f \<Rightarrow> Inl f
        | Inr str \<Rightarrow>
            let channel = uint (wb ! 1) - uint (chr CHR ''0'');
                value = atoi e str in
            if 0 \<le> channel \<and> channel \<le> 3 \<and> 0 \<le> value \<and> value \<le> 255
            then Inr (Returned (int len),
                      s\<lparr>digipot_channel := channel, digipot_setting := value,
                        collab_calls := collab_calls s @ [DigipotWiperSet channel value]\<rparr>)
            else Inr (Returned (int len), s))
     else if wb ! 0 = chr CHR ''M'' \<and> wb ! 1 = chr CHR '':'' \<and>
        chr CHR ''0'' \<le> wb ! 2 \<and> wb ! 2 \<le> chr CHR ''7'' then
       (let setting = uint (wb ! 2) - uint (chr CHR ''0'') in
        if 0 \<le> setting \<and> setting \<le> 7
        then Inr (Returned (int len), s\<lparr>collab_calls := collab_calls s @ [SetMux setting]\<rparr>)
        else Inr (Returned (int len), s))
     else if wb ! 0 = chr CHR ''S'' \<and> wb ! 1 = chr CHR ''C'' \<and> wb ! 2 = chr CHR ''O'' \<and>
        wb ! 3 = chr CHR '':'' then
       (case c_str wb 4 of Inl f \<Rightarrow> Inl f
        | Inr str \<Rightarrow>
            let offset = atof e str in
            if double_ge offset (Finite (- 3.3)) \<and> double_le offset (Finite 3.3)
            then Inr (Returned (int len),
                      s\<lparr>collab_calls := collab_calls s @ [SetSignalChainOffset offset]\<rparr>)
            else Inr (Returned (int len), s))
     else if wb ! 0 = chr CHR ''S'' \<and> wb ! 1 = chr CHR ''C'' \<and> wb ! 2 = chr CHR ''A'' \<and>
        wb ! 3 = chr CHR '':'' then
       (case c_str wb 4 of Inl f \<Rightarrow> Inl f
        | Inr str \<Rightarrow>
            let gain = atof e str in
            if double_ge gain (Finite 1.0) \<and> double_le gain (Finite 7000.0)
            then Inr (Returned (int len),
                      s\<lparr>collab_calls := collab_calls s @ [SetSignalChainAmplification gain]\<rparr>)
            else Inr (Returned (int len), s))
     else if wb ! 0 = chr CHR ''I'' \<and> wb ! 1 = chr CHR ''D'' \<and> wb ! 2 = chr CHR ''D'' \<and>
        wb ! 3 = chr CHR ''S'' then
       Inr (Returned (int len), s\<lparr>collab_calls := collab_calls s @ [StartDds 1000]\<rparr>)
     else if wb ! 0 = chr CHR ''D'' \<and> wb ! 1 = chr CHR ''D'' \<and> wb ! 2 = chr CHR ''S'' \<and>
        wb ! 3 = chr CHR ''O'' \<and> wb ! 4 = chr CHR ''F'' \<and> wb ! 5 = chr CHR ''F'' then
       Inr (Returned (int len), s\<lparr>collab_calls := collab_calls s @ [DdsSleep]\<rparr>)
     else if wb ! 0 = chr CHR ''O'' \<and> wb ! 1 = chr CHR ''N'' then
       Inr (Returned (int len),
            s\<lparr>on_received := True, collab_calls := collab_calls s @ [PowerUp]\<rparr>)
     else if wb ! 0 = chr CHR ''S'' \<and> wb ! 1 = chr CHR ''T'' \<and> wb ! 2 = chr CHR ''A'' \<and>
        wb ! 3 = chr CHR ''R'' \<and> wb ! 4 = chr CHR ''T'' then
       Inr (Returned (int len), s\<lparr>start_received := True\<rparr>)
     else if wb ! 0 = chr CHR ''O'' \<and> wb ! 1 = chr CHR ''F'' \<and> wb ! 2 = chr CHR ''F'' then
       Inr (Returned (int len), s\<lparr>collab_calls := collab_calls s @ [PowerDown]\<rparr>)
     else Inr (NoReturnValue, s))"

text \<open>
  \<open>write_custom_value\<close>: \<open>memcpy(write_buffer, buf, len)\<close>, then
  \<open>write_buffer[len] = '\0'\<close>, then the chain. The write is the list \<open>buf\<close> of its \<open>len\<close>
  bytes. Bytes of the receive buffer past \<open>len\<close> keep what an earlier write left there.
\<close>

definition write_custom_value ::
  "extern_env \<Rightarrow> ble_state \<Rightarrow> uint8_t list \<Rightarrow> fault + (retval \<times> ble_state)" where
  "write_custom_value e s buf =
    (let len = length buf; size = length (write_buffer s) in
     if len > size then Inl (StoreOutOfBounds size)
     else
       let wb1 = buf @ drop len (write_buffer s) in
       if len \<ge> size then Inl (StoreOutOfBounds len)
       else write_custom_value_dispatch e (s\<lparr>write_buffer := wb1[len := 0]\<rparr>) len)"

definition adc_ccc_cfg_changed :: "ble_state \<Rightarrow> uint16_t \<Rightarrow> ble_state" where
  "adc_ccc_cfg_changed s v = s\<lparr>notify_enabled := (v = BT_GATT_CCC_NOTIFY)\<rparr>"

definition connected :: "ble_state \<Rightarrow> uint8_t \<Rightarrow> ble_state" where
  "connected s err = (if err = 0 then s\<lparr>ble_connected := True\<rparr> else s)"

definition disconnected :: "ble_state \<Rightarrow> uint8_t \<Rightarrow> ble_state" where
  "disconnected s reason = s\<lparr>ble_connected := False, notify_enabled := False\<rparr>"

text \<open>
  \<open>ble_send_adc_chunk(data, len)\<close>, \<open>data\<close> being the list of its \<open>len\<close> bytes. The function
  is \<open>void\<close>; what \<open>bt_gatt_notify\<close> returns is only logged.
\<close>

definition ble_send_adc_chunk :: "ble_state \<Rightarrow> uint8_t list \<Rightarrow> ble_state" where
  "ble_send_adc_chunk s data =
     (if \<not> ble_connected s \<or> \<not> notify_enabled s then s
      else s\<lparr>notified := notified s @ [data]\<rparr>)"

definition ble_start_received :: "ble_state \<Rightarrow> bool" where
  "ble_start_received s = start_received s"

definition ble_on_received :: "ble_state \<Rightarrow> bool" where
  "ble_on_received s = on_received s"

section \<open>adc.c\<close>

definition ADC_SAMPLE_RATE_HZ :: nat where
  "ADC_SAMPLE_RATE_HZ = 3000"

definition SAADC_BUFFER_SIZE :: nat where
  "SAADC_BUFFER_SIZE = 3000"

text \<open>\<open>#define SAADC_INTERVAL_US (1000000 / ADC_SAMPLE_RATE_HZ)\<close>: a division of C's \<open>int\<close>.\<close>

definition SAADC_INTERVAL_US :: nat where
  "SAADC_INTERVAL_US = 1000000 div ADC_SAMPLE_RATE_HZ"

definition SAMPLES_PER_NOTIFY :: nat where
  "SAMPLES_PER_NOTIFY = 40"

text \<open>
  The static variables of adc.c that the handlers use: the staging buffer and its
  length, the buffer counter, whether \<open>saadc_ble_work\<close> is submitted to the work queue and
  whether the timer is enabled. \<open>drv_assigned\<close> and \<open>drv_done\<close> are the converter driver's
  (see \<open>nrfx_saadc_buffer_set\<close> below): the indices into \<open>saadc_sample_buffer\<close> it was given,
  in order, and how many of them it has completed.
\<close>

record adc_state =
  g_ble_buf :: "int16_t list"
  g_ble_len :: nat
  saadc_current_buffer :: uint32_t
  work_submitted :: bool
  timer_enabled :: bool
  drv_assigned :: "nat list"
  drv_done :: nat

definition adc_init :: adc_state where
  "adc_init =
     \<lparr> g_ble_buf = replicate SAADC_BUFFER_SIZE 0, g_ble_len = 0,
       saadc_current_buffer = 0, work_submitted = False, timer_enabled = False,
       drv_assigned = [], drv_done = 0 \<rparr>"

subsection \<open>The timer\<close>

text \<open>What \<open>configure_timer\<close> programs: the base frequency and compare channel 0.\<close>

record timer_cfg =
  tm_frequency :: nat
  tm_cc0 :: nat
  tm_clear_on_compare :: bool
  tm_compare_interrupt :: bool

text \<open>
  The driver's conversion of microseconds to ticks of a timer running at \<open>freq\<close> Hz
  (nrfx, outside the repository): \<open>configure_timer\<close> takes it as a parameter, and this is
  the conversion of the driver's documentation.
\<close>

definition nrfx_timer_us_to_ticks :: "nat \<Rightarrow> nat \<Rightarrow> nat" where
  "nrfx_timer_us_to_ticks freq time_us = time_us * freq div 1000000"

text \<open>
  \<open>configure_timer\<close>; \<open>init_ok\<close> says whether \<open>nrfx_timer_init\<close> returned \<open>NRFX_SUCCESS\<close>.
  \<open>None\<close>: the function returned before programming the compare channel.
\<close>

definition configure_timer :: "(nat \<Rightarrow> nat \<Rightarrow> nat) \<Rightarrow> bool \<Rightarrow> timer_cfg option" where
  "configure_timer us_to_ticks init_ok =
     (if \<not> init_ok then None
      else
        let ticks = us_to_ticks 1000000 SAADC_INTERVAL_US in
        Some \<lparr> tm_frequency = 1000000, tm_cc0 = ticks,
               tm_clear_on_compare = True, tm_compare_interrupt = False \<rparr>)"

subsection \<open>The deferred work handler\<close>

text \<open>The two bytes of a sample, as the handler computes them on the promoted \<open>int\<close>.\<close>

definition pack_lo :: "int16_t \<Rightarrow> uint8_t" where
  "pack_lo sample = ucast ((scast sample :: 32 word) AND 0xFF)"

definition pack_hi :: "int16_t \<Rightarrow> uint8_t" where
  "pack_hi sample = ucast (signed_drop_bit 8 (scast sample :: 32 word) AND 0xFF)"

text \<open>
  The \<open>for\<close> loop that fills \<open>payload\<close> from \<open>g_ble_buf[idx + i]\<close>, for \<open>i\<close> up to
  \<open>chunk_samples\<close>.
\<close>

function pack_samples ::
  "int16_t list \<Rightarrow> nat \<Rightarrow> nat \<Rightarrow> nat \<Rightarrow> uint8_t list \<Rightarrow> fault + uint8_t list" where
  "pack_samples buf idx chunk_samples i payload =
     (if i < chunk_samples then
        (if idx + i \<ge> length buf then Inl (ReadOutOfBounds (idx + i))
         else if 2 * i \<ge> length payload then Inl (StoreOutOfBounds (2 * i))
         else if 2 * i + 1 \<ge> length payload then Inl (StoreOutOfBounds (2 * i + 1))
         else
           let sample = buf ! (idx + i) in
           pack_samples buf idx chunk_samples (Suc i)
             (payload[2 * i := pack_lo sample, 2 * i + 1 := pack_hi sample]))
      else Inr payload)"
  by pat_completeness auto
termination
  by (relation "measure (\<lambda>(buf, idx, chunk_samples, i, payload). chunk_samples - i)") auto

declare pack_samples.simps [simp del]

text \<open>
  The \<open>while\<close> loop of \<open>saadc_ble_work_handler\<close>. Its effect is the calls of
  \<open>ble_send_adc_chunk(payload, payload_len)\<close>: \<open>sent\<close> collects the bytes
  \<open>payload[0 .. payload_len)\<close> of each call, in order. \<open>payload\<close> is a fresh local array of
  \<open>2 * SAMPLES_PER_NOTIFY\<close> bytes in every iteration.
\<close>

function work_loop ::
  "int16_t list \<Rightarrow> nat \<Rightarrow> nat \<Rightarrow> uint8_t list list \<Rightarrow> fault + uint8_t list list" where
  "work_loop buf len idx sent =
     (if idx < len then
        (let remaining = len - idx;
             chunk_samples = min remaining SAMPLES_PER_NOTIFY in
         case pack_samples buf idx chunk_samples 0 (replicate (2 * SAMPLES_PER_NOTIFY) 0) of
           Inl f \<Rightarrow> Inl f
         | Inr payload \<Rightarrow>
             let payload_len = 2 * chunk_samples in
             work_loop buf len (idx + chunk_samples) (sent @ [take payload_len payload]))
      else Inr sent)"
  by pat_completeness auto
termination
  by (relation "measure (\<lambda>(buf, len, idx, sent). len - idx)")
     (auto simp add: SAMPLES_PER_NOTIFY_def)

declare work_loop.simps [simp del]

definition saadc_ble_work_handler :: "adc_state \<Rightarrow> fault + uint8_t list list" where
  "saadc_ble_work_handler s = work_loop (g_ble_buf s) (g_ble_len s) 0 []"

subsection \<open>The converter's event handler\<close>

text \<open>
  Modelled from the spec: the converter driver (nrfx_saadc) is not in the repository's
  sources. It keeps the sample blocks it was given through \<open>nrfx_saadc_buffer_set\<close> in the
  order of the calls, fills them in that order, and reports with each DONE event the
  oldest one not yet completed; it never signals DONE on a buffer that was never
  assigned. A block is named by its index in \<open>saadc_sample_buffer\<close>. The result \<open>True\<close> is
  \<open>NRFX_SUCCESS\<close>.
\<close>

definition nrfx_saadc_buffer_set :: "nat \<Rightarrow> adc_state \<Rightarrow> bool \<times> adc_state" where
  "nrfx_saadc_buffer_set b s = (True, s\<lparr>drv_assigned := drv_assigned s @ [b]\<rparr>)"

definition nrfx_saadc_complete :: "adc_state \<Rightarrow> fault + (nat \<times> adc_state)" where
  "nrfx_saadc_complete s =
     (if drv_done s < length (drv_assigned s)
      then Inr (drv_assigned s ! drv_done s, s\<lparr>drv_done := Suc (drv_done s)\<rparr>)
      else Inl NoBufferAssigned)"

datatype nrfx_saadc_evt =
    NRFX_SAADC_EVT_READY
  | NRFX_SAADC_EVT_BUF_REQ
  | NRFX_SAADC_EVT_DONE "int16_t list"
  | NRFX_SAADC_EVT_OTHER nat

text \<open>
  The diagnostics of the DONE case over the block \<open>p_buffer[0 .. size)\<close>: the sum in an
  \<open>int64_t\<close>, the maximum from \<open>INT16_MIN\<close> and the minimum from \<open>INT16_MAX\<close> by signed
  comparison, then \<open>average / size\<close>, which truncates towards zero and is undefined for
  \<open>size = 0\<close>.
\<close>

fun stats_loop :: "int16_t list \<Rightarrow> int \<times> int16_t \<times> int16_t \<Rightarrow> int \<times> int16_t \<times> int16_t" where
  "stats_loop [] acc = acc"
| "stats_loop (current_value # rest) (average, mx, mn) =
     stats_loop rest
       (average + sint current_value,
        if sint current_value > sint mx then current_value else mx,
        if sint current_value < sint mn then current_value else mn)"

definition saadc_done_stats :: "int16_t list \<Rightarrow> fault + (int \<times> int16_t \<times> int16_t)" where
  "saadc_done_stats block =
     (case stats_loop block (0, 0x8000, 0x7FFF) of
        (average, mx, mn) \<Rightarrow>
          if length block = 0 then Inl DivisionByZero
          else Inr (sgn average * (\<bar>average\<bar> div int (length block)), mx, mn))"

text \<open>
  The staging block of the DONE case (``NEW BLE-STAGING BLOCK''): the guard on \<open>n\<close>, the
  \<open>memcpy\<close> of \<open>n\<close> samples to the front of \<open>g_ble_buf\<close>, the length, and \<open>k_work_submit\<close>.
\<close>

definition ble_staging_block :: "adc_state \<Rightarrow> int16_t list \<Rightarrow> adc_state" where
  "ble_staging_block s block =
     (let n = length block;
          n = (if n > SAADC_BUFFER_SIZE then SAADC_BUFFER_SIZE else n) in
      s\<lparr> g_ble_buf := take n block @ drop n (g_ble_buf s),
         g_ble_len := n,
         work_submitted := True \<rparr>)"

text \<open>
  \<open>saadc_event_handler\<close>. A DONE event carries the block \<open>p_buffer[0 .. size)\<close> as a list.
  The output to the log and to RTT is not modelled.
\<close>

fun saadc_event_handler :: "adc_state \<Rightarrow> nrfx_saadc_evt \<Rightarrow> fault + adc_state" where
  "saadc_event_handler s NRFX_SAADC_EVT_READY = Inr (s\<lparr>timer_enabled := True\<rparr>)"
| "saadc_event_handler s NRFX_SAADC_EVT_BUF_REQ =
     (let b = unat (saadc_current_buffer s) mod 2;
          s1 = s\<lparr>saadc_current_buffer := saadc_current_buffer s + 1\<rparr> in
      case nrfx_saadc_buffer_set b s1 of
        (ok, s2) \<Rightarrow> if \<not> ok then Inr s2 else Inr s2)"
| "saadc_event_handler s (NRFX_SAADC_EVT_DONE block) =
     (case saadc_done_stats block of
        Inl f \<Rightarrow> Inl f
      | Inr diagnostics \<Rightarrow> Inr (ble_staging_block s block))"
| "saadc_event_handler s (NRFX_SAADC_EVT_OTHER t) = Inr s"

text \<open>
  \<open>configure_saadc\<close>: the four flags say whether \<open>nrfx_saadc_init\<close>,
  \<open>nrfx_saadc_channels_config\<close>, \<open>nrfx_saadc_advanced_mode_set\<close> and
  \<open>nrfx_saadc_mode_trigger\<close> returned \<open>NRFX_SUCCESS\<close>. The last step is \<open>k_work_init\<close>.
\<close>

definition configure_saadc :: "bool \<Rightarrow> bool \<Rightarrow> bool \<Rightarrow> bool \<Rightarrow> adc_state \<Rightarrow> adc_state" where
  "configure_saadc init_ok channels_ok advanced_ok trigger_ok s =
     (if \<not> init_ok then s
      else if \<not> channels_ok then s
      else if \<not> advanced_ok then s
      else
        case nrfx_saadc_buffer_set 0 s of
          (ok0, s0) \<Rightarrow>
            if \<not> ok0 then s0
            else
              case nrfx_saadc_buffer_set 1 s0 of
                (ok1, s1) \<Rightarrow>
                  if \<not> ok1 then s1
                  else if \<not> trigger_ok then s1
                  else s1\<lparr>work_submitted := False\<rparr>)"

text \<open>
  One converter cycle: the BUFFER_REQUEST event, then the DONE event of the block the
  driver completes, filled with \<open>samples\<close>. The result names the completed block.
\<close>

definition converter_cycle :: "adc_state \<Rightarrow> int16_t list \<Rightarrow> fault + (nat \<times> adc_state)" where
  "converter_cycle s samples =
     (case saadc_event_handler s NRFX_SAADC_EVT_BUF_REQ of
        Inl f \<Rightarrow> Inl f
      | Inr s1 \<Rightarrow>
          (case nrfx_saadc_complete s1 of
             Inl f \<Rightarrow> Inl f
           | Inr (b, s2) \<Rightarrow>
               (case saadc_event_handler s2 (NRFX_SAADC_EVT_DONE samples) of
                  Inl f \<Rightarrow> Inl f
                | Inr s3 \<Rightarrow> Inr (b, s3))))"

text \<open>Consecutive cycles; the result lists the completed blocks in order.\<close>

fun converter_cycles ::
  "adc_state \<Rightarrow> int16_t list list \<Rightarrow> nat list \<Rightarrow> fault + (nat list \<times> adc_state)" where
  "converter_cycles s [] completed = Inr (completed, s)"
| "converter_cycles s (samples # rest) completed =
     (case converter_cycle s samples of
        Inl f \<Rightarrow> Inl f
      | Inr (b, s') \<Rightarrow> converter_cycles s' rest (completed @ [b]))"

subsection \<open>Staging and draining\<close>

text \<open>
  The two operations on the staging slot as the system performs them: a DONE event
  handled by \<open>saadc_event_handler\<close>, and a run of the work queue, which takes the submitted
  work item and calls \<open>saadc_ble_work_handler\<close>, each chunk going to \<open>ble_send_adc_chunk\<close>.
\<close>

record system =
  sys_adc :: adc_state
  sys_ble :: ble_state

definition sys_done :: "system \<Rightarrow> int16_t list \<Rightarrow> fault + system" where
  "sys_done sy block =
     (case saadc_event_handler (sys_adc sy) (NRFX_SAADC_EVT_DONE block) of
        Inl f \<Rightarrow> Inl f
      | Inr a \<Rightarrow> Inr (sy\<lparr>sys_adc := a\<rparr>))"

definition sys_work :: "system \<Rightarrow> fault + system" where
  "sys_work sy =
     (if \<not> work_submitted (sys_adc sy) then Inr sy
      else
        case saadc_ble_work_handler (sys_adc sy) of
          Inl f \<Rightarrow> Inl f
        | Inr chunks \<Rightarrow>
            Inr \<lparr> sys_adc = (sys_adc sy)\<lparr>work_submitted := False\<rparr>,
                  sys_ble = foldl ble_send_adc_chunk (sys_ble sy) chunks \<rparr>)"

datatype slot_op = Stage "int16_t list" | Drain

fun slot_ops :: "system \<Rightarrow> slot_op list \<Rightarrow> fault + system" where
  "slot_ops sy [] = Inr sy"
| "slot_ops sy (Stage block # ops) =
     (case sys_done sy block of Inl f \<Rightarrow> Inl f | Inr sy' \<Rightarrow> slot_ops sy' ops)"
| "slot_ops sy (Drain # ops) =
     (case sys_work sy of Inl f \<Rightarrow> Inl f | Inr sy' \<Rightarrow> slot_ops sy' ops)"

section \<open>main.c\<close>

text \<open>
  The static variables of main.c: the serial command buffer (32 bytes), its index, and
  the two flags (main.c has a \<open>start_received\<close> of its own; it is \<open>main_start_received\<close>
  here, and \<open>on_recieved\<close> is spelt as in the source).
\<close>

record main_state =
  command_buffer :: "uint8_t list"
  cmd_index :: nat
  main_start_received :: bool
  on_recieved :: bool

definition main_init :: main_state where
  "main_init =
     \<lparr> command_buffer = replicate 32 0, cmd_index = 0,
       main_start_received = False, on_recieved = False \<rparr>"

definition valid_char :: "uint8_t \<Rightarrow> bool" where
  "valid_char c =
     ((chr CHR ''0'' \<le> c \<and> c \<le> chr CHR ''9'') \<or> c = chr CHR '':'' \<or> c = chr CHR ''-'' \<or>
      (chr CHR ''A'' \<le> c \<and> c \<le> chr CHR ''Z'') \<or> c = 13 \<or> c = chr CHR ''.'')"

text \<open>
  \<open>uart_cb\<close> on a \<open>UART_RX_RDY\<close> event whose byte is \<open>received_char\<close> (13 is \<open>'\r'\<close>).
  \<open>strcmp(command_buffer, "START") == 0\<close> compares the C string at the start of the
  buffer.
\<close>

definition uart_cb :: "main_state \<Rightarrow> uint8_t \<Rightarrow> fault + main_state" where
  "uart_cb m received_char =
     (if valid_char received_char then
        (if cmd_index m \<ge> length (command_buffer m) then Inl (StoreOutOfBounds (cmd_index m))
         else
           let m1 = m\<lparr> command_buffer := (command_buffer m)[cmd_index m := received_char],
                       cmd_index := cmd_index m + 1 \<rparr> in
           if received_char = 13 then
             (let m2 = m1\<lparr>command_buffer := (command_buffer m1)[cmd_index m1 - 1 := 0]\<rparr> in
              case c_str (command_buffer m2) 0 of
                Inl f \<Rightarrow> Inl f
              | Inr str \<Rightarrow>
                  let m3 = (if str = bytes ''START'' then m2\<lparr>main_start_received := True\<rparr>
                            else if str = bytes ''ON'' then m2\<lparr>on_recieved := True\<rparr>
                            else m2) in
                  Inr (m3\<lparr>cmd_index := 0\<rparr>))
           else Inr m1)
      else Inr (m\<lparr>cmd_index := 0\<rparr>))"

text \<open>
  The main thread between its two wait loops, one statement at a time: where it stands
  in \<open>wait_for_on_command\<close> (the \<open>while\<close> test, the assignment from \<open>ble_on_received()\<close>, the
  sleep, the \<open>if\<close> that logs), the initialisation between the loops, and
  \<open>wait_for_start_command\<close>.
\<close>

datatype main_pc =
    On_while | On_assign | On_sleep | On_if
  | Main_initialise
  | Start_while | Start_assign | Start_sleep
  | Main_running

record gate_state =
  gt_main :: main_state
  gt_ble :: ble_state
  gt_pc :: main_pc

definition gate_init :: gate_state where
  "gate_init = \<lparr> gt_main = main_init, gt_ble = ble_init, gt_pc = On_while \<rparr>"

fun main_step :: "main_pc \<Rightarrow> gate_state \<Rightarrow> gate_state" where
  "main_step On_while g =
     (if \<not> on_recieved (gt_main g) then g\<lparr>gt_pc := On_assign\<rparr>
      else g\<lparr>gt_pc := Main_initialise\<rparr>)"
| "main_step On_assign g =
     g\<lparr> gt_main := (gt_main g)\<lparr>on_recieved := ble_on_received (gt_ble g)\<rparr>,
        gt_pc := On_sleep \<rparr>"
| "main_step On_sleep g = g\<lparr>gt_pc := On_if\<rparr>"
| "main_step On_if g = g\<lparr>gt_pc := On_while\<rparr>"
| "main_step Main_initialise g = g\<lparr>gt_pc := Start_while\<rparr>"
| "main_step Start_while g =
     (if \<not> main_start_received (gt_main g) then g\<lparr>gt_pc := Start_assign\<rparr>
      else g\<lparr>gt_pc := Main_running\<rparr>)"
| "main_step Start_assign g =
     g\<lparr> gt_main := (gt_main g)\<lparr>main_start_received := ble_start_received (gt_ble g)\<rparr>,
        gt_pc := Start_sleep \<rparr>"
| "main_step Start_sleep g = g\<lparr>gt_pc := Start_while\<rparr>"
| "main_step Main_running g = g"

text \<open>
  What can happen next: the main thread executes its next statement, the serial
  callback runs on a received byte, or the wireless write callback runs on a write. The
  callbacks run to completion (they preempt the main thread, which never preempts them).
\<close>

datatype gate_event = MainStep | UartRxRdy uint8_t | BleWrite "uint8_t list"

fun gate_step :: "extern_env \<Rightarrow> gate_state \<Rightarrow> gate_event \<Rightarrow> fault + gate_state" where
  "gate_step e g MainStep = Inr (main_step (gt_pc g) g)"
| "gate_step e g (UartRxRdy c) =
     (case uart_cb (gt_main g) c of
        Inl f \<Rightarrow> Inl f
      | Inr m \<Rightarrow> Inr (g\<lparr>gt_main := m\<rparr>))"
| "gate_step e g (BleWrite buf) =
     (case write_custom_value e (gt_ble g) buf of
        Inl f \<Rightarrow> Inl f
      | Inr (r, b) \<Rightarrow> Inr (g\<lparr>gt_ble := b\<rparr>))"

fun gate_run :: "extern_env \<Rightarrow> gate_state \<Rightarrow> gate_event list \<Rightarrow> fault + gate_state" where
  "gate_run e g [] = Inr g"
| "gate_run e g (ev # evs) =
     (case gate_step e g ev of Inl f \<Rightarrow> Inl f | Inr g' \<Rightarrow> gate_run e g' evs)"

text \<open>
  The two observers of the gate: the flag the wait loop tests, or the flag the wireless
  module exposes.
\<close>

definition power_requested :: "gate_state \<Rightarrow> bool" where
  "power_requested g = (on_recieved (gt_main g) \<or> ble_on_received (gt_ble g))"

definition start_requested :: "gate_state \<Rightarrow> bool" where
  "start_requested g = (main_start_received (gt_main g) \<or> ble_start_received (gt_ble g))"

section \<open>Invariants\<close>

text \<open>The staging slot: the buffer has its declared size and the length is within it.\<close>

definition slot_inv :: "adc_state \<Rightarrow> bool" where
  "slot_inv s = (length (g_ble_buf s) = SAADC_BUFFER_SIZE \<and> g_ble_len s \<le> SAADC_BUFFER_SIZE)"

text \<open>
  After \<open>j\<close> converter cycles: the counter has counted them, the driver has completed \<open>j\<close>
  blocks, and it was given blocks 0 and 1 at configuration and then block \<open>k mod 2\<close> at
  the \<open>k\<close>-th request.
\<close>

definition rotation_inv :: "nat \<Rightarrow> adc_state \<Rightarrow> bool" where
  "rotation_inv j s =
     (saadc_current_buffer s = of_nat j \<and> drv_done s = j \<and>
      drv_assigned s = [0, 1] @ map (\<lambda>k. k mod 2) [0..<j])"

text \<open>
  The receive buffer of the write callback: it has its declared size and its last byte
  is NUL, so that a C string read from any index ends inside it.
\<close>

definition wb_inv :: "ble_state \<Rightarrow> bool" where
  "wb_inv s = (length (write_buffer s) = RECEIVE_BUFF_SIZE \<and>
               write_buffer s ! (RECEIVE_BUFF_SIZE - 1) = 0)"

text \<open>
  What one pass through the chain of the write callback can do, from the state \<open>s\<close> at its
  start: fault only by a string read running past the receive buffer; otherwise keep the
  two command flags once they are set, and leave the receive buffer and the link state
  alone.
\<close>

definition dispatch_frame :: "ble_state \<Rightarrow> fault + (retval \<times> ble_state) \<Rightarrow> bool" where
  "dispatch_frame s x =
     (case x of
        Inl f \<Rightarrow> f = ReadOutOfBounds (length (write_buffer s))
      | Inr (r, s') \<Rightarrow>
          (on_received s \<longrightarrow> on_received s') \<and> (start_received s \<longrightarrow> start_received s') \<and>
          write_buffer s' = write_buffer s \<and> notified s' = notified s \<and>
          ble_connected s' = ble_connected s \<and> notify_enabled s' = notify_enabled s)"

text \<open>The conditions of the chain of \<open>write_custom_value\<close>, in its order: some branch is taken.\<close>

definition recognised :: "uint8_t list \<Rightarrow> bool" where
  "recognised wb =
    ((wb ! 0 = chr CHR ''S'' \<and> wb ! 1 = chr CHR ''D'' \<and> wb ! 2 = chr CHR ''D'' \<and>
        wb ! 3 = chr CHR ''S'' \<and> wb ! 4 = chr CHR '':'') \<or>
     (wb ! 0 = chr CHR ''D'' \<and> wb ! 1 = chr CHR ''D'' \<and> wb ! 2 = chr CHR ''S'' \<and>
        wb ! 3 = chr CHR ''A'' \<and> wb ! 4 = chr CHR '':'') \<or>
     (wb ! 0 = chr CHR ''D'' \<and> wb ! 1 = chr CHR ''D'' \<and> wb ! 2 = chr CHR ''S'' \<and>
        wb ! 3 = chr CHR ''O'' \<and> wb ! 4 = chr CHR '':'') \<or>
     (wb ! 0 = chr CHR ''P'' \<and> wb ! 2 = chr CHR '':'') \<or>
     (wb ! 0 = chr CHR ''D'' \<and> wb ! 2 = chr CHR '':'') \<or>
     (wb ! 0 = chr CHR ''M'' \<and> wb ! 1 = chr CHR '':'' \<and>
        chr CHR ''0'' \<le> wb ! 2 \<and> wb ! 2 \<le> chr CHR ''7'') \<or>
     (wb ! 0 = chr CHR ''S'' \<and> wb ! 1 = chr CHR ''C'' \<and> wb ! 2 = chr CHR ''O'' \<and>
        wb ! 3 = chr CHR '':'') \<or>
     (wb ! 0 = chr CHR ''S'' \<and> wb ! 1 = chr CHR ''C'' \<and> wb ! 2 = chr CHR ''A'' \<and>
        wb ! 3 = chr CHR '':'') \<or>
     (wb ! 0 = chr CHR ''I'' \<and> wb ! 1 = chr CHR ''D'' \<and> wb ! 2 = chr CHR ''D'' \<and>
        wb ! 3 = chr CHR ''S'') \<or>
     (wb ! 0 = chr CHR ''D'' \<and> wb ! 1 = chr CHR ''D'' \<and> wb ! 2 = chr CHR ''S'' \<and>
        wb ! 3 = chr CHR ''O'' \<and> wb ! 4 = chr CHR ''F'' \<and> wb ! 5 = chr CHR ''F'') \<or>
     (wb ! 0 = chr CHR ''O'' \<and> wb ! 1 = chr CHR ''N'') \<or>
     (wb ! 0 = chr CHR ''S'' \<and> wb ! 1 = chr CHR ''T'' \<and> wb ! 2 = chr CHR ''A'' \<and>
        wb ! 3 = chr CHR ''R'' \<and> wb ! 4 = chr CHR ''T'') \<or>
     (wb ! 0 = chr CHR ''O'' \<and> wb ! 1 = chr CHR ''F'' \<and> wb ! 2 = chr CHR ''F''))"

section \<open>Command values and traces\<close>

text \<open>The range \<open>[-3.3, 3.3]\<close> of the offset commands, on the value a \<open>double\<close> denotes.\<close>

definition offset_in_range :: "double \<Rightarrow> bool" where
  "offset_in_range v = (case v of Finite r \<Rightarrow> - 3.3 \<le> r \<and> r \<le> 3.3 | _ \<Rightarrow> False)"

text \<open>
  A reader of plain decimal numerals (an optional minus sign, digits, an optional
  point and digits): the part of what \<open>atof\<close> accepts that the commands of the
  specification use. It stands for \<open>atof\<close> where a concrete C library is needed.
\<close>

definition is_digit :: "uint8_t \<Rightarrow> bool" where
  "is_digit c = (chr CHR ''0'' \<le> c \<and> c \<le> chr CHR ''9'')"

fun digits :: "uint8_t list \<Rightarrow> nat \<Rightarrow> nat \<Rightarrow> nat \<times> nat \<times> uint8_t list" where
  "digits [] v n = (v, n, [])"
| "digits (c # cs) v n =
     (if is_digit c then digits cs (10 * v + unat (c - chr CHR ''0'')) (Suc n)
      else (v, n, c # cs))"

definition decimal_atof :: "uint8_t list \<Rightarrow> double" where
  "decimal_atof str =
     (case (case str of [] \<Rightarrow> (False, []) 
            | c # cs \<Rightarrow> if c = chr CHR ''-'' then (True, cs) else (False, str)) of
        (neg, body) \<Rightarrow>
          (case digits body 0 0 of
             (ip, ni, rest) \<Rightarrow>
               (case (case rest of [] \<Rightarrow> (0, 0, [])
                      | c # cs \<Rightarrow> if c = chr CHR ''.'' then digits cs 0 0 else (0, 0, rest)) of
                  (fp, nf, rest') \<Rightarrow>
                    Finite ((if neg then - 1 else 1) * (real ip + real fp / 10 ^ nf)))))"

text \<open>The bytes of the serial commands \<open>ON\<close> and \<open>START\<close>, each ended by a carriage return.\<close>

definition serial_on :: "gate_event list" where
  "serial_on = [UartRxRdy (chr CHR ''O''), UartRxRdy (chr CHR ''N''), UartRxRdy 13]"

definition serial_start :: "gate_event list" where
  "serial_start = [UartRxRdy (chr CHR ''S''), UartRxRdy (chr CHR ''T''), UartRxRdy (chr CHR ''A''),
     UartRxRdy (chr CHR ''R''), UartRxRdy (chr CHR ''T''), UartRxRdy 13]"

section \<open>Little-endian encoding, as the specification words it\<close>

text \<open>
  A sample as two bytes, the low-order byte first; a block of samples as the
  concatenation of its samples' bytes; and the reader of such bytes.
\<close>

definition le16 :: "int16_t \<Rightarrow> uint8_t list" where
  "le16 x = [ucast x, ucast (drop_bit 8 x)]"

definition le16_block :: "int16_t list \<Rightarrow> uint8_t list" where
  "le16_block xs = concat (map le16 xs)"

fun le16_decode :: "uint8_t list \<Rightarrow> int16_t list" where
  "le16_decode (lo # hi # rest) = word_cat hi lo # le16_decode rest"
| "le16_decode rest = []"

section \<open>The chunked transport\<close>

subsection \<open>Packing one chunk\<close>

lemma xff_mask: "(0xFF :: 32 word) = mask 8"
  by (simp add: mask_eq_exp_minus_1)

lemma pack_lo_eq: "pack_lo x = ucast x"
  unfolding pack_lo_def xff_mask by (rule bit_word_eqI) (auto simp add: bit_simps)

lemma pack_hi_eq: "pack_hi x = ucast (drop_bit 8 x)"
  unfolding pack_hi_def xff_mask by (rule bit_word_eqI) (auto simp add: bit_simps)

lemma le16_roundtrip: "word_cat (ucast (drop_bit 8 x) :: uint8_t) (ucast x :: uint8_t) = (x :: int16_t)"
  by (rule bit_word_eqI) (auto simp add: bit_simps)

lemma le16_decode_block: "le16_decode (le16_block xs) = xs"
  by (induction xs) (simp_all add: le16_block_def le16_def le16_roundtrip)

lemma length_le16_block: "length (le16_block xs) = 2 * length xs"
  by (induction xs) (simp_all add: le16_block_def le16_def)

lemma le16_block_append: "le16_block (xs @ ys) = le16_block xs @ le16_block ys"
  by (simp add: le16_block_def)

lemma pack_samples_take:
  "idx + n \<le> length buf \<Longrightarrow> 2 * n \<le> length payload \<Longrightarrow> i \<le> n \<Longrightarrow>
   \<exists>p. pack_samples buf idx n i payload = Inr p \<and>
       take (2 * n) p = take (2 * i) payload @ le16_block (take (n - i) (drop (idx + i) buf))"
proof (induction buf idx n i payload rule: pack_samples.induct)
  case (1 buf idx n i payload)
  show ?case
  proof (cases "i < n")
    case False
    with "1.prems" have "i = n" by simp
    then show ?thesis by (subst pack_samples.simps) (simp add: le16_block_def)
  next
    case True
    let ?x = "buf ! (idx + i)"
    let ?p = "payload[2 * i := pack_lo ?x, 2 * i + 1 := pack_hi ?x]"
    from True "1.prems" have b: "idx + i < length buf" "2 * i < length payload" "2 * i + 1 < length payload"
      by simp_all
    have "\<exists>p. pack_samples buf idx n (Suc i) ?p = Inr p \<and>
       take (2 * n) p = take (2 * Suc i) ?p @ le16_block (take (n - Suc i) (drop (idx + Suc i) buf))"
      using "1.IH"[of ?x] True b "1.prems" by simp
    then obtain p where p: "pack_samples buf idx n (Suc i) ?p = Inr p"
      and t: "take (2 * n) p = take (2 * Suc i) ?p @ le16_block (take (n - Suc i) (drop (idx + Suc i) buf))"
      by blast
    have step: "pack_samples buf idx n i payload = Inr p"
      using True b p by (subst pack_samples.simps) (simp add: Let_def)
    have tk: "take (2 * Suc i) ?p = take (2 * i) payload @ le16 ?x"
      using b by (simp add: take_Suc_conv_app_nth le16_def pack_lo_eq pack_hi_eq)
    have dr: "take (n - i) (drop (idx + i) buf) = ?x # take (n - Suc i) (drop (idx + Suc i) buf)"
      using True b by (metis Cons_nth_drop_Suc Suc_diff_Suc add_Suc_right take_Suc_Cons)
    show ?thesis using step t tk dr by (simp add: le16_block_def)
  qed
qed


lemma pack_chunk:
  assumes "idx + n \<le> length buf" "n \<le> SAMPLES_PER_NOTIFY"
  shows "\<exists>p. pack_samples buf idx n 0 (replicate (2 * SAMPLES_PER_NOTIFY) 0) = Inr p \<and>
             take (2 * n) p = le16_block (take n (drop idx buf))"
  using pack_samples_take[of idx n buf "replicate (2 * SAMPLES_PER_NOTIFY) 0" 0] assms
  by simp

lemma upt_shift: "map f [0..<Suc m] = f 0 # map (\<lambda>k. f (Suc k)) [0..<m]"
  by (simp only: map_upt_Suc[symmetric]) 

lemma work_loop_chunks:
  "len \<le> length buf \<Longrightarrow> idx \<le> len \<Longrightarrow>
   work_loop buf len idx sent =
     Inr (sent @ map (\<lambda>k. le16_block (take 40 (drop (idx + 40 * k) (take len buf))))
                   [0..<(len - idx + 39) div 40])"
proof (induction buf len idx sent rule: work_loop.induct)
  case (1 buf len idx sent)
  show ?case
  proof (cases "idx < len")
    case False
    with "1.prems" have "idx = len" by simp
    then show ?thesis by (subst work_loop.simps) simp
  next
    case True
    define n where "n = min (len - idx) SAMPLES_PER_NOTIFY"
    have n40: "n = min (len - idx) 40" by (simp add: n_def SAMPLES_PER_NOTIFY_def)
    have n: "idx + n \<le> length buf" "n \<le> SAMPLES_PER_NOTIFY" "0 < n" "idx + n \<le> len"
      using True "1.prems" by (auto simp add: n_def SAMPLES_PER_NOTIFY_def)
    obtain p where p: "pack_samples buf idx n 0 (replicate (2 * SAMPLES_PER_NOTIFY) 0) = Inr p"
      and tp: "take (2 * n) p = le16_block (take n (drop idx buf))"
      using pack_chunk[OF n(1) n(2)] by blast
    let ?f = "\<lambda>i k. le16_block (take 40 (drop (i + 40 * k) (take len buf)))"
    have ih: "work_loop buf len (idx + n) (sent @ [take (2 * n) p]) =
       Inr ((sent @ [take (2 * n) p]) @ map (?f (idx + n)) [0..<(len - (idx + n) + 39) div 40])"
      using "1.IH"[OF True refl n_def p refl] "1.prems" n
      by (simp add: n_def)
    have step: "work_loop buf len idx sent = work_loop buf len (idx + n) (sent @ [take (2 * n) p])"
      using True p by (subst work_loop.simps) (simp add: Let_def n_def)
    have first: "take (2 * n) p = ?f idx 0"
    proof -
      have "take 40 (drop idx (take len buf)) = take n (drop idx buf)"
        using n40 "1.prems" by (simp add: drop_take min_def)
      then show ?thesis using tp by simp
    qed
    have rest: "map (?f idx) [0..<(len - idx + 39) div 40] =
                ?f idx 0 # map (?f (idx + n)) [0..<(len - (idx + n) + 39) div 40]"
    proof (cases "len - idx \<ge> 40")
      case True
      then have n': "n = 40" using n40 by simp
      have a: "len - idx + 39 = (len - (idx + 40) + 39) + 40"
        using True by simp
      have "(len - idx + 39) div 40 = Suc ((len - (idx + 40) + 39) div 40)"
        unfolding a by simp
      then have "(len - idx + 39) div 40 = Suc ((len - (idx + n) + 39) div 40)"
        using n' by simp
      then show ?thesis
        using n' by (simp only: upt_shift) (simp add: ac_simps)
    next
      case False
      then have n': "n = len - idx" using n40 by simp
      have e1: "(len - idx + 39) div 40 = Suc 0" using False \<open>idx < len\<close> by simp
      have e2: "(len - (idx + n) + 39) div 40 = 0" using n' by simp
      show ?thesis unfolding e1 e2 by simp
    qed
    show ?thesis using step ih first rest by simp
  qed
qed


lemma concat_take_drop:
  "concat (map (\<lambda>k. take c (drop (c * k) xs)) [0..<n]) = take (c * n) xs"
proof (induction n)
  case 0
  show ?case by simp
next
  case (Suc n)
  have "take (c * n) xs @ take c (drop (c * n) xs) = take (c * n + c) xs"
    by (simp add: take_add)
  then show ?case using Suc by (simp add: add.commute)
qed

lemma ceil40_props:
  fixes L :: nat
  shows "L \<le> 40 * ((L + 39) div 40)"
    and "k < (L + 39) div 40 \<Longrightarrow> 40 * k < L"
    and "Suc k < (L + 39) div 40 \<Longrightarrow> 40 \<le> L - 40 * k"
    and "0 < (L + 39) div 40 \<Longrightarrow>
         min 40 (L - 40 * ((L + 39) div 40 - 1)) = (if L mod 40 = 0 then 40 else L mod 40)"
proof -
  define q where "q = L div 40"
  define r where "r = L mod 40"
  have Lqr: "L = 40 * q + r" and r: "r < 40" by (simp_all add: q_def r_def)
  have n: "(L + 39) div 40 = (if r = 0 then q else Suc q)"
  proof (cases "r = 0")
    case True
    then show ?thesis by (simp add: Lqr)
  next
    case False
    then have "L + 39 = (r - 1) + 40 * Suc q" by (simp add: Lqr)
    moreover have "((r - 1) + 40 * Suc q) div 40 = Suc q" using r by simp
    ultimately show ?thesis using False by simp
  qed
  show "L \<le> 40 * ((L + 39) div 40)" unfolding n using r by (simp add: Lqr)
  show "40 * k < L" if "k < (L + 39) div 40"
  proof (cases "r = 0")
    case True
    with that n have "Suc k \<le> q" by simp
    then have "40 * Suc k \<le> 40 * q" by (rule mult_le_mono2)
    then show ?thesis using True by (simp add: Lqr)
  next
    case False
    with that n have "k \<le> q" by simp
    then have "40 * k \<le> 40 * q" by (rule mult_le_mono2)
    then show ?thesis using False by (simp add: Lqr)
  qed
  show "40 \<le> L - 40 * k" if "Suc k < (L + 39) div 40"
  proof (cases "r = 0")
    case True
    with that n have "Suc (Suc k) \<le> q" by simp
    then have "40 * Suc (Suc k) \<le> 40 * q" by (rule mult_le_mono2)
    then show ?thesis using True by (simp add: Lqr)
  next
    case False
    with that n have "Suc k \<le> q" by simp
    then have "40 * Suc k \<le> 40 * q" by (rule mult_le_mono2)
    then show ?thesis using False by (simp add: Lqr)
  qed
  show "min 40 (L - 40 * ((L + 39) div 40 - 1)) = (if L mod 40 = 0 then 40 else L mod 40)"
    if "0 < (L + 39) div 40"
  proof -
    have m: "L mod 40 = r" by (simp add: r_def)
    show ?thesis unfolding m n
    proof (cases "r = 0")
      case True
      with that n have "0 < q" by simp
      then obtain q' where q': "q = Suc q'" by (cases q) simp_all
      show "min 40 (L - 40 * ((if r = 0 then q else Suc q) - 1)) = (if r = 0 then 40 else r)"
        using True by (simp add: Lqr q')
    next
      case False
      then show "min 40 (L - 40 * ((if r = 0 then q else Suc q) - 1)) = (if r = 0 then 40 else r)"
        using r by (simp add: Lqr)
    qed
  qed
qed

lemma le16_block_concat: "le16_block (concat yss) = concat (map le16_block yss)"
  by (induction yss) (simp_all add: le16_block_def)

lemma concat_chunks:
  assumes "length xs \<le> 40 * n"
  shows "concat (map (\<lambda>k. le16_block (take 40 (drop (40 * k) xs))) [0..<n]) = le16_block xs"
proof -
  have "concat (map (\<lambda>k. le16_block (take 40 (drop (40 * k) xs))) [0..<n]) =
        le16_block (concat (map (\<lambda>k. take 40 (drop (40 * k) xs)) [0..<n]))"
    by (simp add: le16_block_concat comp_def)
  also have "\<dots> = le16_block (take (40 * n) xs)"
    by (simp only: concat_take_drop)
  also have "\<dots> = le16_block xs" using assms by simp
  finally show ?thesis .
qed

lemma foldl_send_up:
  "ble_connected b \<Longrightarrow> notify_enabled b \<Longrightarrow>
   foldl ble_send_adc_chunk b cs = b\<lparr>notified := notified b @ cs\<rparr>"
proof (induction cs arbitrary: b)
  case Nil
  show ?case by simp
next
  case (Cons c cs)
  let ?b = "b\<lparr>notified := notified b @ [c]\<rparr>"
  have "ble_send_adc_chunk b c = ?b" using Cons.prems by (simp add: ble_send_adc_chunk_def)
  moreover have "foldl ble_send_adc_chunk ?b cs = ?b\<lparr>notified := notified ?b @ cs\<rparr>"
    using Cons.prems by (intro Cons.IH) simp_all
  ultimately show ?case by simp
qed

lemma foldl_send_down:
  "\<not> (ble_connected b \<and> notify_enabled b) \<Longrightarrow> foldl ble_send_adc_chunk b cs = b"
  by (induction cs) (auto simp add: ble_send_adc_chunk_def)

subsection \<open>One run of the work handler\<close>

lemma work_handler_run:
  assumes buf: "length (g_ble_buf s) = SAADC_BUFFER_SIZE"
    and len: "g_ble_len s = L" and L: "L \<le> 3000"
  shows "\<exists>chunks.
     saadc_ble_work_handler s = Inr chunks \<and>
     length chunks = (L + 39) div 40 \<and>
     (\<forall>k<length chunks.
        chunks ! k = le16_block (take 40 (drop (40 * k) (take L (g_ble_buf s))))) \<and>
     (\<forall>k. Suc k < length chunks \<longrightarrow> length (chunks ! k) = 2 * 40) \<and>
     (chunks \<noteq> [] \<longrightarrow>
        length (last chunks) = 2 * (if L mod 40 = 0 then 40 else L mod 40)) \<and>
     (\<forall>c\<in>set chunks. c \<noteq> [] \<and> length c \<le> 80) \<and>
     concat chunks = le16_block (take L (g_ble_buf s)) \<and>
     le16_decode (concat chunks) = take L (g_ble_buf s) \<and>
     (\<forall>b. ble_connected b \<and> notify_enabled b \<longrightarrow>
        notified (foldl ble_send_adc_chunk b chunks) = notified b @ chunks)"
proof -
  let ?xs = "take L (g_ble_buf s)"
  let ?n = "(L + 39) div 40"
  let ?f = "\<lambda>k. le16_block (take 40 (drop (40 * k) ?xs))"
  let ?cs = "map ?f [0..<?n]"
  have lx: "length ?xs = L" using buf L by (simp add: SAADC_BUFFER_SIZE_def)
  have run: "saadc_ble_work_handler s = Inr ?cs"
    using work_loop_chunks[of L "g_ble_buf s" 0 "[]"] buf len L
    by (simp add: saadc_ble_work_handler_def SAADC_BUFFER_SIZE_def)
  have n: "length ?cs = ?n" by simp
  have nth: "\<forall>k<length ?cs. ?cs ! k = ?f k" by simp
  have lenk: "length (?f k) = 2 * min 40 (L - 40 * k)" for k
  proof -
    have "length (?f k) = 2 * min 40 (length ?xs - 40 * k)"
      by (simp add: length_le16_block min.commute)
    then show ?thesis by (simp only: lx)
  qed
  have full: "\<forall>k. Suc k < length ?cs \<longrightarrow> length (?cs ! k) = 2 * 40"
  proof (intro allI impI)
    fix k assume k: "Suc k < length ?cs"
    then have "40 \<le> L - 40 * k" by (simp add: ceil40_props(3))
    then show "length (?cs ! k) = 2 * 40" using k lenk[of k] by simp
  qed
  have lst: "?cs \<noteq> [] \<longrightarrow>
        length (last ?cs) = 2 * (if L mod 40 = 0 then 40 else L mod 40)"
  proof
    assume "?cs \<noteq> []"
    then have pos: "0 < ?n" by simp
    then have e: "last ?cs = ?f (?n - 1)" by (simp add: last_map)
    have "length (last ?cs) = 2 * min 40 (L - 40 * (?n - 1))"
      unfolding e by (rule lenk)
    then show "length (last ?cs) = 2 * (if L mod 40 = 0 then 40 else L mod 40)"
      by (simp only: ceil40_props(4)[OF pos])
  qed
  have bnd: "\<forall>c\<in>set ?cs. c \<noteq> [] \<and> length c \<le> 80"
  proof
    fix c assume "c \<in> set ?cs"
    then obtain k where k: "k < ?n" and c: "c = ?f k" by auto
    have "40 * k < L" using k by (rule ceil40_props(2))
    then have "0 < length c \<and> length c \<le> 80" unfolding c lenk by simp
    then show "c \<noteq> [] \<and> length c \<le> 80" by auto
  qed
  have cat: "concat ?cs = le16_block ?xs"
    using concat_chunks[of ?xs ?n] lx ceil40_props(1)[of L] by simp
  then have dec: "le16_decode (concat ?cs) = ?xs" by (simp only: le16_decode_block)
  have up: "\<forall>b. ble_connected b \<and> notify_enabled b \<longrightarrow>
        notified (foldl ble_send_adc_chunk b ?cs) = notified b @ ?cs"
    by (simp add: foldl_send_up)
  show ?thesis
    using run n nth full lst bnd cat dec up by blast
qed

text \<open>
  C1. One run of the deferred work handler over a staged block of \<open>L \<le> 3000\<close> samples
  hands \<open>ceil(L / 40)\<close> chunks to the send function, in order. Chunk \<open>k\<close> is the
  little-endian encoding of the samples \<open>40 k ..< min (40 (k + 1)) L\<close>; every chunk but the
  last has 40 samples (80 bytes), the last has \<open>L mod 40\<close> samples, or 40 when 40 divides
  \<open>L\<close>; no chunk is empty and none is longer than 80 bytes; the chunks concatenated are
  the encoding of the \<open>L\<close> staged samples, from which the samples are read back; and on a
  connected, subscribed link every chunk is notified, in order.
\<close>

theorem C1_chunking:
  assumes buf: "length (g_ble_buf s) = SAADC_BUFFER_SIZE"
    and len: "g_ble_len s = L" and L: "L \<le> 3000"
  shows "\<exists>chunks.
     saadc_ble_work_handler s = Inr chunks \<and>
     length chunks = (L + 39) div 40 \<and>
     (\<forall>k<length chunks.
        chunks ! k = le16_block (take 40 (drop (40 * k) (take L (g_ble_buf s))))) \<and>
     (\<forall>k. Suc k < length chunks \<longrightarrow> length (chunks ! k) = 2 * 40) \<and>
     (chunks \<noteq> [] \<longrightarrow>
        length (last chunks) = 2 * (if L mod 40 = 0 then 40 else L mod 40)) \<and>
     (\<forall>c\<in>set chunks. c \<noteq> [] \<and> length c \<le> 80) \<and>
     concat chunks = le16_block (take L (g_ble_buf s)) \<and>
     le16_decode (concat chunks) = take L (g_ble_buf s) \<and>
     (\<forall>b. ble_connected b \<and> notify_enabled b \<longrightarrow>
        notified (foldl ble_send_adc_chunk b chunks) = notified b @ chunks)"
  using buf len L by (rule work_handler_run)

theorem C1_chunking_witness:
  "length (g_ble_buf (ble_staging_block adc_init (replicate 41 7))) = SAADC_BUFFER_SIZE \<and>
   g_ble_len (ble_staging_block adc_init (replicate 41 7)) = 41 \<and>
   (\<exists>chunks. saadc_ble_work_handler (ble_staging_block adc_init (replicate 41 7)) = Inr chunks \<and>
      length chunks = 2 \<and> length (chunks ! 0) = 80 \<and> length (last chunks) = 2 \<and>
      le16_decode (concat chunks) = replicate 41 7)"
proof -
  let ?s = "ble_staging_block adc_init (replicate 41 7)"
  have b: "length (g_ble_buf ?s) = SAADC_BUFFER_SIZE"
    by (simp add: ble_staging_block_def adc_init_def SAADC_BUFFER_SIZE_def)
  have l: "g_ble_len ?s = 41"
    by (simp add: ble_staging_block_def adc_init_def SAADC_BUFFER_SIZE_def)
  have t: "take 41 (g_ble_buf ?s) = replicate 41 7"
    by (simp add: ble_staging_block_def adc_init_def SAADC_BUFFER_SIZE_def)
  obtain chunks where c: "saadc_ble_work_handler ?s = Inr chunks"
    and n: "length chunks = (41 + 39) div 40"
    and f: "\<forall>k. Suc k < length chunks \<longrightarrow> length (chunks ! k) = 2 * 40"
    and e: "chunks \<noteq> [] \<longrightarrow>
        length (last chunks) = 2 * (if (41::nat) mod 40 = 0 then 40 else 41 mod 40)"
    and d: "le16_decode (concat chunks) = take 41 (g_ble_buf ?s)"
    using C1_chunking[OF b l] by auto
  have n2: "length chunks = 2" using n by simp
  then have ne: "chunks \<noteq> []" by auto
  have "length (chunks ! 0) = 80" using f n2 by simp
  moreover have "length (last chunks) = 2" using e ne by simp
  ultimately show ?thesis using b l c n2 d t by simp
qed

section \<open>Staging and handoff\<close>

lemma stats_loop_total: "\<exists>a mx mn. stats_loop block acc = (a, mx, mn)"
  by (cases "stats_loop block acc") simp

lemma saadc_done_stats_nonempty:
  "block \<noteq> [] \<Longrightarrow> \<exists>d. saadc_done_stats block = Inr d"
  by (simp add: saadc_done_stats_def split: prod.splits)

lemma saadc_done_stats_empty: "saadc_done_stats [] = Inl DivisionByZero"
  by (simp add: saadc_done_stats_def)

lemma done_handler_stage:
  "block \<noteq> [] \<Longrightarrow>
   saadc_event_handler s (NRFX_SAADC_EVT_DONE block) = Inr (ble_staging_block s block)"
  using saadc_done_stats_nonempty[of block] by auto

lemma done_handler_empty:
  "saadc_event_handler s (NRFX_SAADC_EVT_DONE []) = Inl DivisionByZero"
  by (simp add: saadc_done_stats_empty)

lemma stage_len: "g_ble_len (ble_staging_block s block) = min (length block) SAADC_BUFFER_SIZE"
  by (simp add: ble_staging_block_def Let_def)

lemma stage_buf:
  "g_ble_buf (ble_staging_block s block) =
     take (min (length block) SAADC_BUFFER_SIZE) block @
     drop (min (length block) SAADC_BUFFER_SIZE) (g_ble_buf s)"
  by (simp add: ble_staging_block_def Let_def min_def)

lemma stage_submitted: "work_submitted (ble_staging_block s block)"
  by (simp add: ble_staging_block_def Let_def)

lemma stage_inv:
  "length (g_ble_buf s) = SAADC_BUFFER_SIZE \<Longrightarrow> slot_inv (ble_staging_block s block)"
  by (simp add: slot_inv_def stage_len stage_buf)

lemma stage_slot_inv: "slot_inv s \<Longrightarrow> slot_inv (ble_staging_block s block)"
  by (rule stage_inv) (simp add: slot_inv_def)

lemma stage_front:
  "take (g_ble_len (ble_staging_block s block)) (g_ble_buf (ble_staging_block s block)) =
   take (min (length block) SAADC_BUFFER_SIZE) block"
  by (simp add: stage_len stage_buf)

lemma stage_rest:
  "drop (min (length block) SAADC_BUFFER_SIZE) (g_ble_buf (ble_staging_block s block)) =
   drop (min (length block) SAADC_BUFFER_SIZE) (g_ble_buf s)"
  by (simp add: stage_buf)

lemma work_handler_slot:
  assumes "slot_inv s"
  shows "\<exists>chunks. saadc_ble_work_handler s = Inr chunks \<and>
           length chunks = (g_ble_len s + 39) div 40 \<and>
           concat chunks = le16_block (take (g_ble_len s) (g_ble_buf s)) \<and>
           le16_decode (concat chunks) = take (g_ble_len s) (g_ble_buf s)"
proof -
  have "length (g_ble_buf s) = SAADC_BUFFER_SIZE" and "g_ble_len s \<le> 3000"
    using assms by (simp_all add: slot_inv_def SAADC_BUFFER_SIZE_def)
  from work_handler_run[OF this(1) refl this(2)] show ?thesis by blast
qed

lemma work_handler_front:
  assumes "slot_inv s" "slot_inv t" "g_ble_len s = g_ble_len t"
    and "take (g_ble_len s) (g_ble_buf s) = take (g_ble_len t) (g_ble_buf t)"
  shows "saadc_ble_work_handler s = saadc_ble_work_handler t"
proof -
  have "g_ble_len s \<le> length (g_ble_buf s)" "g_ble_len t \<le> length (g_ble_buf t)"
    using assms by (simp_all add: slot_inv_def)
  then show ?thesis
    using assms(3,4) by (simp add: saadc_ble_work_handler_def work_loop_chunks)
qed

text \<open>
  C2. Two consecutive stage operations with blocks \<open>B1\<close> and \<open>B2\<close>, before the deferred task
  runs: the slot length is \<open>min (length B2) 3000\<close>, the slot content is the first that many
  samples of \<open>B2\<close>, and the deferred task hands on exactly these samples; what it hands on
  is what it would after staging \<open>B2\<close> alone, so nothing of \<open>B1\<close> is mixed in. Each stage
  copies \<open>min (length B) 3000\<close> samples, leaves the rest of the buffer as it was, and
  submits the work item. For non-empty blocks the DONE case of the event handler is this
  stage operation.
\<close>

theorem C2_staging_overwrite:
  assumes "length (g_ble_buf s) = SAADC_BUFFER_SIZE"
  shows "g_ble_len (ble_staging_block (ble_staging_block s B1) B2) = min (length B2) 3000 \<and>
     take (min (length B2) 3000) (g_ble_buf (ble_staging_block (ble_staging_block s B1) B2)) =
       take (min (length B2) 3000) B2 \<and>
     (\<exists>chunks. saadc_ble_work_handler (ble_staging_block (ble_staging_block s B1) B2) = Inr chunks \<and>
        length chunks = (min (length B2) 3000 + 39) div 40 \<and>
        le16_decode (concat chunks) = take (min (length B2) 3000) B2) \<and>
     saadc_ble_work_handler (ble_staging_block (ble_staging_block s B1) B2) =
       saadc_ble_work_handler (ble_staging_block s B2) \<and>
     g_ble_len (ble_staging_block s B1) = min (length B1) 3000 \<and>
     take (min (length B1) 3000) (g_ble_buf (ble_staging_block s B1)) = take (min (length B1) 3000) B1 \<and>
     drop (min (length B1) 3000) (g_ble_buf (ble_staging_block s B1)) =
       drop (min (length B1) 3000) (g_ble_buf s) \<and>
     work_submitted (ble_staging_block s B1) \<and>
     work_submitted (ble_staging_block (ble_staging_block s B1) B2) \<and>
     (B1 \<noteq> [] \<and> B2 \<noteq> [] \<longrightarrow>
        saadc_event_handler s (NRFX_SAADC_EVT_DONE B1) = Inr (ble_staging_block s B1) \<and>
        saadc_event_handler (ble_staging_block s B1) (NRFX_SAADC_EVT_DONE B2) =
          Inr (ble_staging_block (ble_staging_block s B1) B2))"
proof -
  let ?s1 = "ble_staging_block s B1"
  let ?s2 = "ble_staging_block ?s1 B2"
  let ?n = "min (length B2) 3000"
  have c: "SAADC_BUFFER_SIZE = 3000" by (simp add: SAADC_BUFFER_SIZE_def)
  have inv1: "slot_inv ?s1" using assms by (rule stage_inv)
  then have l1: "length (g_ble_buf ?s1) = SAADC_BUFFER_SIZE" by (simp add: slot_inv_def)
  have inv2: "slot_inv ?s2" using l1 by (rule stage_inv)
  have len2: "g_ble_len ?s2 = ?n" by (simp add: stage_len c)
  have front2: "take ?n (g_ble_buf ?s2) = take ?n B2"
    using stage_front[of ?s1 B2] by (simp add: stage_len c)
  obtain chunks where run: "saadc_ble_work_handler ?s2 = Inr chunks"
    and cnt: "length chunks = (g_ble_len ?s2 + 39) div 40"
    and dec: "le16_decode (concat chunks) = take (g_ble_len ?s2) (g_ble_buf ?s2)"
    using work_handler_slot[OF inv2] by blast
  have obs: "\<exists>chunks. saadc_ble_work_handler ?s2 = Inr chunks \<and>
        length chunks = (?n + 39) div 40 \<and> le16_decode (concat chunks) = take ?n B2"
    using run cnt dec len2 front2 by simp
  have same: "saadc_ble_work_handler ?s2 = saadc_ble_work_handler (ble_staging_block s B2)"
  proof (rule work_handler_front[OF inv2 stage_inv[OF assms]])
    show "g_ble_len ?s2 = g_ble_len (ble_staging_block s B2)" by (simp add: stage_len)
    show "take (g_ble_len ?s2) (g_ble_buf ?s2) =
          take (g_ble_len (ble_staging_block s B2)) (g_ble_buf (ble_staging_block s B2))"
      by (simp only: stage_front)
  qed
  have len1: "g_ble_len ?s1 = min (length B1) 3000" by (simp add: stage_len c)
  have front1: "take (min (length B1) 3000) (g_ble_buf ?s1) = take (min (length B1) 3000) B1"
    using stage_front[of s B1] by (simp add: stage_len c)
  have rest1: "drop (min (length B1) 3000) (g_ble_buf ?s1) = drop (min (length B1) 3000) (g_ble_buf s)"
    using stage_rest[of B1 s] by (simp add: c)
  have hd: "B1 \<noteq> [] \<and> B2 \<noteq> [] \<longrightarrow>
        saadc_event_handler s (NRFX_SAADC_EVT_DONE B1) = Inr ?s1 \<and>
        saadc_event_handler ?s1 (NRFX_SAADC_EVT_DONE B2) = Inr ?s2"
    using done_handler_stage[of B1 s] done_handler_stage[of B2 ?s1] by blast
  show ?thesis
    using len2 front2 obs same len1 front1 rest1 stage_submitted[of s B1] stage_submitted[of ?s1 B2] hd
    by blast
qed

theorem C2_staging_overwrite_witness:
  "length (g_ble_buf adc_init) = SAADC_BUFFER_SIZE \<and>
   g_ble_len (ble_staging_block (ble_staging_block adc_init [1, 2, 3]) [9]) = 1 \<and>
   take 1 (g_ble_buf (ble_staging_block (ble_staging_block adc_init [1, 2, 3]) [9])) = [9] \<and>
   (\<exists>chunks. saadc_ble_work_handler (ble_staging_block (ble_staging_block adc_init [1, 2, 3]) [9])
        = Inr chunks \<and> length chunks = 1 \<and> le16_decode (concat chunks) = [9]) \<and>
   saadc_event_handler adc_init (NRFX_SAADC_EVT_DONE [1, 2, 3]) =
     Inr (ble_staging_block adc_init [1, 2, 3]) \<and>
   saadc_event_handler (ble_staging_block adc_init [1, 2, 3]) (NRFX_SAADC_EVT_DONE [9]) =
     Inr (ble_staging_block (ble_staging_block adc_init [1, 2, 3]) [9])"
proof -
  have h: "length (g_ble_buf adc_init) = SAADC_BUFFER_SIZE"
    by (simp add: adc_init_def)
  let ?s1 = "ble_staging_block adc_init [1, 2, 3]"
  let ?s2 = "ble_staging_block ?s1 [9]"
  from C2_staging_overwrite[OF h, of "[1, 2, 3]" "[9]"]
  have a: "g_ble_len ?s2 = min (length [9 :: int16_t]) 3000"
    and b: "take (min (length [9 :: int16_t]) 3000) (g_ble_buf ?s2) =
            take (min (length [9 :: int16_t]) 3000) [9]"
    and c: "\<exists>chunks. saadc_ble_work_handler ?s2 = Inr chunks \<and>
        length chunks = (min (length [9 :: int16_t]) 3000 + 39) div 40 \<and>
        le16_decode (concat chunks) = take (min (length [9 :: int16_t]) 3000) [9]"
    and d: "[1, 2, 3 :: int16_t] \<noteq> [] \<and> [9 :: int16_t] \<noteq> [] \<longrightarrow>
        saadc_event_handler adc_init (NRFX_SAADC_EVT_DONE [1, 2, 3]) = Inr ?s1 \<and>
        saadc_event_handler ?s1 (NRFX_SAADC_EVT_DONE [9]) = Inr ?s2"
    by blast+
  show ?thesis
    using h a b c d by (simp del: saadc_event_handler.simps)
qed

section \<open>The staging slot stays within its buffer\<close>

lemma done_handler_cases:
  "(block \<noteq> [] \<and> saadc_event_handler s (NRFX_SAADC_EVT_DONE block) = Inr (ble_staging_block s block)) \<or>
   (block = [] \<and> saadc_event_handler s (NRFX_SAADC_EVT_DONE block) = Inl DivisionByZero)"
  using done_handler_stage[of block s] done_handler_empty[of s] by blast

lemma sys_done_cases:
  "(block \<noteq> [] \<and> sys_done sy block = Inr (sy\<lparr>sys_adc := ble_staging_block (sys_adc sy) block\<rparr>)) \<or>
   (block = [] \<and> sys_done sy block = Inl DivisionByZero)"
  using done_handler_cases[of block "sys_adc sy"] unfolding sys_done_def by auto

lemma sys_work_inv:
  assumes "slot_inv (sys_adc sy)"
  shows "\<exists>sy'. sys_work sy = Inr sy' \<and> slot_inv (sys_adc sy') \<and>
           g_ble_buf (sys_adc sy') = g_ble_buf (sys_adc sy) \<and>
           g_ble_len (sys_adc sy') = g_ble_len (sys_adc sy)"
proof (cases "work_submitted (sys_adc sy)")
  case False
  then show ?thesis using assms by (simp add: sys_work_def)
next
  case True
  obtain chunks where "saadc_ble_work_handler (sys_adc sy) = Inr chunks"
    using work_handler_slot[OF assms] by blast
  then show ?thesis using True assms by (simp add: sys_work_def slot_inv_def)
qed

text \<open>
  C9. From a state whose staging slot is within its buffer (the initial state is one),
  any sequence of stage and drain operations either runs through, and the slot length is
  then at most the capacity of 3000 samples, or stops at the division by the size of an
  empty block in the diagnostics; it never stops at a read or a store outside an array.
  After a DONE-handler execution the slot length is at most the capacity, and a run of
  the work handler returns its chunks: each of its reads \<open>g_ble_buf[idx + i]\<close> was inside the
  buffer.
\<close>

theorem C9_slot_bounds:
  assumes "slot_inv (sys_adc sy)"
  shows "((\<exists>sy'. slot_ops sy ops = Inr sy' \<and> slot_inv (sys_adc sy')) \<or>
          (slot_ops sy ops = Inl DivisionByZero \<and> Stage [] \<in> set ops)) \<and>
         (\<forall>i. slot_ops sy ops \<noteq> Inl (ReadOutOfBounds i)) \<and>
         (\<forall>i. slot_ops sy ops \<noteq> Inl (StoreOutOfBounds i)) \<and>
         (\<forall>block s'. saadc_event_handler (sys_adc sy) (NRFX_SAADC_EVT_DONE block) = Inr s' \<longrightarrow>
            g_ble_len s' \<le> SAADC_BUFFER_SIZE \<and> length (g_ble_buf s') = SAADC_BUFFER_SIZE) \<and>
         (\<exists>chunks. saadc_ble_work_handler (sys_adc sy) = Inr chunks)"
proof -
  have main: "(\<exists>sy'. slot_ops sy ops = Inr sy' \<and> slot_inv (sys_adc sy')) \<or>
          (slot_ops sy ops = Inl DivisionByZero \<and> Stage [] \<in> set ops)"
    using assms
  proof (induction ops arbitrary: sy)
    case Nil
    then show ?case by simp
  next
    case (Cons op ops)
    show ?case
    proof (cases op)
      case (Stage block)
      show ?thesis
      proof (cases "block = []")
        case True
        then show ?thesis using Stage sys_done_cases[of block sy] by simp
      next
        case False
        let ?sy = "sy\<lparr>sys_adc := ble_staging_block (sys_adc sy) block\<rparr>"
        have d: "sys_done sy block = Inr ?sy" using False sys_done_cases[of block sy] by simp
        have "slot_inv (sys_adc ?sy)" using Cons.prems by (simp add: stage_slot_inv)
        from Cons.IH[OF this] show ?thesis using Stage d by auto
      qed
    next
      case Drain
      obtain sy' where w: "sys_work sy = Inr sy'" and i: "slot_inv (sys_adc sy')"
        using sys_work_inv[OF Cons.prems] by blast
      from Cons.IH[OF i] show ?thesis using Drain w by auto
    qed
  qed
  have dn: "\<forall>block s'. saadc_event_handler (sys_adc sy) (NRFX_SAADC_EVT_DONE block) = Inr s' \<longrightarrow>
            g_ble_len s' \<le> SAADC_BUFFER_SIZE \<and> length (g_ble_buf s') = SAADC_BUFFER_SIZE"
  proof (intro allI impI)
    fix block s'
    assume h: "saadc_event_handler (sys_adc sy) (NRFX_SAADC_EVT_DONE block) = Inr s'"
    then have "s' = ble_staging_block (sys_adc sy) block"
      using done_handler_cases[of block "sys_adc sy"] by auto
    then have "slot_inv s'" using assms by (simp add: stage_slot_inv)
    then show "g_ble_len s' \<le> SAADC_BUFFER_SIZE \<and> length (g_ble_buf s') = SAADC_BUFFER_SIZE"
      by (simp add: slot_inv_def)
  qed
  have run: "\<exists>chunks. saadc_ble_work_handler (sys_adc sy) = Inr chunks"
    using work_handler_slot[OF assms] by blast
  from main have "\<forall>i. slot_ops sy ops \<noteq> Inl (ReadOutOfBounds i)"
    and "\<forall>i. slot_ops sy ops \<noteq> Inl (StoreOutOfBounds i)" by auto
  with main dn run show ?thesis by blast
qed

theorem C9_slot_bounds_witness:
  "slot_inv (sys_adc \<lparr>sys_adc = adc_init, sys_ble = ble_init\<rparr>) \<and>
   (\<exists>sy'. slot_ops \<lparr>sys_adc = adc_init, sys_ble = ble_init\<rparr>
            [Stage [1], Drain, Stage [2, 3], Stage [4], Drain] = Inr sy' \<and>
          g_ble_len (sys_adc sy') \<le> SAADC_BUFFER_SIZE) \<and>
   (\<exists>s'. saadc_event_handler adc_init (NRFX_SAADC_EVT_DONE [1]) = Inr s' \<and>
          g_ble_len s' \<le> SAADC_BUFFER_SIZE)"
proof -
  let ?sy = "\<lparr>sys_adc = adc_init, sys_ble = ble_init\<rparr>"
  let ?ops = "[Stage [1], Drain, Stage [2, 3], Stage [4], Drain]"
  have h: "slot_inv (sys_adc ?sy)" by (simp add: slot_inv_def adc_init_def)
  have e: "Stage [] \<notin> set ?ops" by simp
  have d: "saadc_event_handler adc_init (NRFX_SAADC_EVT_DONE [1]) =
             Inr (ble_staging_block adc_init [1])"
    by (rule done_handler_stage) simp
  from C9_slot_bounds[OF h, of ?ops] e
  have "\<exists>sy'. slot_ops ?sy ?ops = Inr sy' \<and> slot_inv (sys_adc sy')"
    and "\<forall>block s'. saadc_event_handler (sys_adc ?sy) (NRFX_SAADC_EVT_DONE block) = Inr s' \<longrightarrow>
            g_ble_len s' \<le> SAADC_BUFFER_SIZE \<and> length (g_ble_buf s') = SAADC_BUFFER_SIZE"
    by blast+
  then show ?thesis using h d by (auto simp add: slot_inv_def)
qed

section \<open>Backpressure\<close>

lemma send_down:
  "\<not> (ble_connected b \<and> notify_enabled b) \<Longrightarrow> ble_send_adc_chunk b data = b"
  by (auto simp add: ble_send_adc_chunk_def)

lemma link_up:
  "ble_connected (adc_ccc_cfg_changed (connected b 0) BT_GATT_CCC_NOTIFY) \<and>
   notify_enabled (adc_ccc_cfg_changed (connected b 0) BT_GATT_CCC_NOTIFY) \<and>
   notified (adc_ccc_cfg_changed (connected b 0) BT_GATT_CCC_NOTIFY) = notified b"
  by (simp add: adc_ccc_cfg_changed_def connected_def)

text \<open>
  C3. A chunk sent while the link is not both connected and subscribed changes nothing:
  no notification is issued, and the send function, which returns no value, has no error
  to hand back. A run of the work handler over a staged slot with the link down still
  takes every chunk (\<open>ceil(len / 40)\<close> of them) through the send function and ends without
  a fault, leaving the wireless state as it was. The DONE event that follows is staged
  as usual, and once the link is up the next run notifies the chunks of that block.
\<close>

theorem C3_backpressure_drop:
  assumes inv: "slot_inv (sys_adc sy)"
    and sub: "work_submitted (sys_adc sy)"
    and down: "\<not> (ble_connected (sys_ble sy) \<and> notify_enabled (sys_ble sy))"
    and blk: "block \<noteq> []"
  shows "(\<forall>b data. \<not> (ble_connected b \<and> notify_enabled b) \<longrightarrow> ble_send_adc_chunk b data = b) \<and>
    (\<exists>chunks. saadc_ble_work_handler (sys_adc sy) = Inr chunks \<and>
       length chunks = (g_ble_len (sys_adc sy) + 39) div 40 \<and>
       foldl ble_send_adc_chunk (sys_ble sy) chunks = sys_ble sy) \<and>
    sys_work sy = Inr (sy\<lparr>sys_adc := (sys_adc sy)\<lparr>work_submitted := False\<rparr>\<rparr>) \<and>
    (\<exists>sy1 sy2 sy3 chunks.
       sys_work sy = Inr sy1 \<and> sys_ble sy1 = sys_ble sy \<and>
       sys_done sy1 block = Inr sy2 \<and> sys_ble sy2 = sys_ble sy \<and>
       work_submitted (sys_adc sy2) \<and>
       g_ble_len (sys_adc sy2) = min (length block) 3000 \<and>
       take (min (length block) 3000) (g_ble_buf (sys_adc sy2)) = take (min (length block) 3000) block \<and>
       sys_work (sy2\<lparr>sys_ble := adc_ccc_cfg_changed (connected (sys_ble sy2) 0) BT_GATT_CCC_NOTIFY\<rparr>)
         = Inr sy3 \<and>
       notified (sys_ble sy3) = notified (sys_ble sy) @ chunks \<and>
       length chunks = (min (length block) 3000 + 39) div 40 \<and>
       le16_decode (concat chunks) = take (min (length block) 3000) block)"
proof -
  have c: "SAADC_BUFFER_SIZE = 3000" by (simp add: SAADC_BUFFER_SIZE_def)
  have a: "\<forall>b data. \<not> (ble_connected b \<and> notify_enabled b) \<longrightarrow> ble_send_adc_chunk b data = b"
    by (simp add: send_down)
  obtain chunks0 where r0: "saadc_ble_work_handler (sys_adc sy) = Inr chunks0"
    and n0: "length chunks0 = (g_ble_len (sys_adc sy) + 39) div 40"
    using work_handler_slot[OF inv] by blast
  have f0: "foldl ble_send_adc_chunk (sys_ble sy) chunks0 = sys_ble sy"
    using down by (rule foldl_send_down)
  let ?sy1 = "sy\<lparr>sys_adc := (sys_adc sy)\<lparr>work_submitted := False\<rparr>\<rparr>"
  have w1: "sys_work sy = Inr ?sy1"
    using sub r0 f0 by (simp add: sys_work_def)
  let ?a2 = "ble_staging_block (sys_adc ?sy1) block"
  let ?sy2 = "?sy1\<lparr>sys_adc := ?a2\<rparr>"
  have d2: "sys_done ?sy1 block = Inr ?sy2"
    using blk sys_done_cases[of block ?sy1] by simp
  have inv1: "slot_inv (sys_adc ?sy1)" using inv by (simp add: slot_inv_def)
  have inv2: "slot_inv ?a2" using inv1 by (rule stage_slot_inv)
  have len2: "g_ble_len ?a2 = min (length block) 3000" by (simp add: stage_len c)
  have front2: "take (min (length block) 3000) (g_ble_buf ?a2) = take (min (length block) 3000) block"
    using stage_front[of "sys_adc ?sy1" block] by (simp add: stage_len c)
  obtain chunks where r2: "saadc_ble_work_handler ?a2 = Inr chunks"
    and n2: "length chunks = (g_ble_len ?a2 + 39) div 40"
    and dec: "le16_decode (concat chunks) = take (g_ble_len ?a2) (g_ble_buf ?a2)"
    using work_handler_slot[OF inv2] by blast
  let ?b = "adc_ccc_cfg_changed (connected (sys_ble ?sy2) 0) BT_GATT_CCC_NOTIFY"
  let ?sy3 = "\<lparr> sys_adc = ?a2\<lparr>work_submitted := False\<rparr>,
                sys_ble = foldl ble_send_adc_chunk ?b chunks \<rparr>"
  have w3: "sys_work (?sy2\<lparr>sys_ble := ?b\<rparr>) = Inr ?sy3"
    using r2 stage_submitted[of "sys_adc ?sy1" block] by (simp add: sys_work_def)
  have "foldl ble_send_adc_chunk ?b chunks = ?b\<lparr>notified := notified ?b @ chunks\<rparr>"
    using link_up[of "sys_ble ?sy2"] by (intro foldl_send_up) simp_all
  then have n3: "notified (sys_ble ?sy3) = notified (sys_ble sy) @ chunks"
    using link_up[of "sys_ble ?sy2"] by simp
  have last: "\<exists>sy1 sy2 sy3 chunks.
       sys_work sy = Inr sy1 \<and> sys_ble sy1 = sys_ble sy \<and>
       sys_done sy1 block = Inr sy2 \<and> sys_ble sy2 = sys_ble sy \<and>
       work_submitted (sys_adc sy2) \<and>
       g_ble_len (sys_adc sy2) = min (length block) 3000 \<and>
       take (min (length block) 3000) (g_ble_buf (sys_adc sy2)) = take (min (length block) 3000) block \<and>
       sys_work (sy2\<lparr>sys_ble := adc_ccc_cfg_changed (connected (sys_ble sy2) 0) BT_GATT_CCC_NOTIFY\<rparr>)
         = Inr sy3 \<and>
       notified (sys_ble sy3) = notified (sys_ble sy) @ chunks \<and>
       length chunks = (min (length block) 3000 + 39) div 40 \<and>
       le16_decode (concat chunks) = take (min (length block) 3000) block"
    apply (rule exI[of _ ?sy1], rule exI[of _ ?sy2], rule exI[of _ ?sy3], rule exI[of _ chunks])
    using w1 d2 w3 n3 n2 dec len2 front2 stage_submitted[of "sys_adc ?sy1" block]
    apply (simp only: simp_thms)
    apply simp
    done
  show ?thesis using a r0 n0 f0 w1 last by blast
qed

theorem C3_backpressure_drop_witness:
  "slot_inv (ble_staging_block adc_init [5]) \<and>
   work_submitted (ble_staging_block adc_init [5]) \<and>
   \<not> (ble_connected ble_init \<and> notify_enabled ble_init) \<and>
   sys_work \<lparr>sys_adc = ble_staging_block adc_init [5], sys_ble = ble_init\<rparr> =
     Inr \<lparr>sys_adc = (ble_staging_block adc_init [5])\<lparr>work_submitted := False\<rparr>,
          sys_ble = ble_init\<rparr> \<and>
   (\<exists>sy2 sy3 chunks.
      sys_done \<lparr>sys_adc = (ble_staging_block adc_init [5])\<lparr>work_submitted := False\<rparr>,
                sys_ble = ble_init\<rparr> [6] = Inr sy2 \<and>
      sys_work (sy2\<lparr>sys_ble := adc_ccc_cfg_changed (connected (sys_ble sy2) 0) BT_GATT_CCC_NOTIFY\<rparr>)
        = Inr sy3 \<and>
      notified (sys_ble sy3) = chunks \<and> length chunks = 1 \<and>
      le16_decode (concat chunks) = [6])"
proof -
  let ?sy = "\<lparr>sys_adc = ble_staging_block adc_init [5], sys_ble = ble_init\<rparr>"
  have i: "slot_inv (sys_adc ?sy)"
    by (simp add: stage_inv adc_init_def)
  have w: "work_submitted (sys_adc ?sy)" by (simp add: stage_submitted)
  have d: "\<not> (ble_connected (sys_ble ?sy) \<and> notify_enabled (sys_ble ?sy))"
    by (simp add: ble_init_def)
  have b: "[6::int16_t] \<noteq> []" by simp
  have n: "notified ble_init = []" by (simp add: ble_init_def)
  from C3_backpressure_drop[OF i w d b]
  obtain sy1 sy2 sy3 chunks where
    w1: "sys_work ?sy = Inr (?sy\<lparr>sys_adc := (sys_adc ?sy)\<lparr>work_submitted := False\<rparr>\<rparr>)"
    and s1: "sys_work ?sy = Inr sy1"
    and s2: "sys_done sy1 [6] = Inr sy2"
    and s3: "sys_work (sy2\<lparr>sys_ble := adc_ccc_cfg_changed (connected (sys_ble sy2) 0) BT_GATT_CCC_NOTIFY\<rparr>)
         = Inr sy3"
    and nt: "notified (sys_ble sy3) = notified (sys_ble ?sy) @ chunks"
    and ln: "length chunks = (min (length [6::int16_t]) 3000 + 39) div 40"
    and dc: "le16_decode (concat chunks) = take (min (length [6::int16_t]) 3000) [6]"
    by blast
  have sy1: "sy1 = \<lparr>sys_adc = (ble_staging_block adc_init [5])\<lparr>work_submitted := False\<rparr>,
                     sys_ble = ble_init\<rparr>"
    using w1 s1 by simp
  have "notified (sys_ble sy3) = chunks" using nt n by simp
  moreover have "length chunks = 1" using ln by simp
  moreover have "le16_decode (concat chunks) = [6]" using dc by simp
  ultimately show ?thesis
    using i w d w1 s2 s3 unfolding sy1 by auto
qed

section \<open>Block rotation\<close>

lemma parity_word: "unat (of_nat j :: uint32_t) mod 2 = j mod 2"
proof -
  have "unat (of_nat j :: uint32_t) = j mod 2 ^ 32" by (simp add: unat_of_nat)
  moreover have "(2::nat) dvd 2 ^ 32" by simp
  ultimately show ?thesis by (simp only: mod_mod_cancel)
qed

lemma rotation_prefix:
  "[0, 1] @ map (\<lambda>k. k mod 2) [0..<m] = map (\<lambda>k. k mod 2) [0..<m + 2]"
proof (induction m)
  case 0
  show ?case by (simp add: upt_rec)
next
  case (Suc m)
  have "map (\<lambda>k. k mod 2) [0..<Suc m + 2] = map (\<lambda>k. k mod 2) [0..<m + 2] @ [(m + 2) mod 2]"
    by simp
  also have "\<dots> = ([0, 1] @ map (\<lambda>k. k mod 2) [0..<m]) @ [m mod 2]"
    by (simp only: Suc) simp
  finally show ?case by simp
qed

lemma rotation_nth:
  assumes "j < m"
  shows "([0, 1] @ map (\<lambda>k. k mod 2) [0..<m]) ! j = j mod 2"
proof -
  have "j < m + 2" using assms by simp
  then have "map (\<lambda>k. k mod 2) [0..<m + 2] ! j = j mod 2" by (simp only: nth_map_upt) simp
  then show ?thesis by (simp only: rotation_prefix)
qed

lemma buf_req_step:
  assumes "rotation_inv j s"
  shows "\<exists>s1. saadc_event_handler s NRFX_SAADC_EVT_BUF_REQ = Inr s1 \<and>
           saadc_current_buffer s1 = of_nat (Suc j) \<and> drv_done s1 = j \<and>
           drv_assigned s1 = [0, 1] @ map (\<lambda>k. k mod 2) [0..<Suc j] \<and>
           g_ble_buf s1 = g_ble_buf s \<and> g_ble_len s1 = g_ble_len s"
  using assms by (simp add: rotation_inv_def nrfx_saadc_buffer_set_def parity_word)

lemma converter_cycle_step:
  assumes "rotation_inv j s" "samples \<noteq> []"
  shows "\<exists>s'. converter_cycle s samples = Inr (j mod 2, s') \<and> rotation_inv (Suc j) s'"
proof -
  obtain s1 where h: "saadc_event_handler s NRFX_SAADC_EVT_BUF_REQ = Inr s1"
    and c: "saadc_current_buffer s1 = of_nat (Suc j)" and d: "drv_done s1 = j"
    and a: "drv_assigned s1 = [0, 1] @ map (\<lambda>k. k mod 2) [0..<Suc j]"
    using buf_req_step[OF assms(1)] by blast
  have nth: "drv_assigned s1 ! j = j mod 2"
    unfolding a by (rule rotation_nth) simp
  let ?s2 = "s1\<lparr>drv_done := Suc j\<rparr>"
  have cpl: "nrfx_saadc_complete s1 = Inr (j mod 2, ?s2)"
    using d a nth by (simp add: nrfx_saadc_complete_def)
  have dn: "saadc_event_handler ?s2 (NRFX_SAADC_EVT_DONE samples) = Inr (ble_staging_block ?s2 samples)"
    using assms(2) by (rule done_handler_stage)
  have cyc: "converter_cycle s samples = Inr (j mod 2, ble_staging_block ?s2 samples)"
    unfolding converter_cycle_def h using cpl dn by simp
  have "rotation_inv (Suc j) (ble_staging_block ?s2 samples)"
    using c a by (simp add: rotation_inv_def ble_staging_block_def Let_def)
  with cyc show ?thesis by blast
qed

lemma converter_cycles_run:
  assumes "rotation_inv j s" "\<forall>B\<in>set blocks. B \<noteq> []"
  shows "\<exists>s'. converter_cycles s blocks acc =
              Inr (acc @ map (\<lambda>k. k mod 2) [j..<j + length blocks], s') \<and>
            rotation_inv (j + length blocks) s'"
  using assms
proof (induction blocks arbitrary: s j acc)
  case Nil
  then show ?case by simp
next
  case (Cons B blocks)
  obtain s1 where c: "converter_cycle s B = Inr (j mod 2, s1)" and i: "rotation_inv (Suc j) s1"
    using converter_cycle_step[of j s B] Cons.prems by auto
  obtain s' where r: "converter_cycles s1 blocks (acc @ [j mod 2]) =
       Inr ((acc @ [j mod 2]) @ map (\<lambda>k. k mod 2) [Suc j..<Suc j + length blocks], s')"
    and i': "rotation_inv (Suc j + length blocks) s'"
    using Cons.IH[OF i, of "acc @ [j mod 2]"] Cons.prems by auto
  have "[j..<j + length (B # blocks)] = j # [Suc j..<Suc j + length blocks]"
    by (simp add: upt_rec)
  then show ?case using c r i' by simp
qed

lemma configure_saadc_rotation:
  "rotation_inv 0 (configure_saadc True True True True adc_init)"
  by (simp add: rotation_inv_def configure_saadc_def nrfx_saadc_buffer_set_def adc_init_def)

text \<open>
  C4. With the two sample blocks 0 and 1 given to the driver at configuration, any
  number of consecutive converter cycles (a BUFFER_REQUEST, then the DONE of the block
  the driver completes) assigns the blocks in the order 0, 1, 0, 1, ..., and the block
  completed at the \<open>k\<close>-th DONE, counted from 0, is block \<open>k mod 2\<close>. The 32-bit counter may
  wrap around: \<open>2^32\<close> is even. The blocks' contents are arbitrary and non-empty.
\<close>

theorem C4_block_rotation:
  assumes "\<forall>B\<in>set blocks. B \<noteq> []"
  shows "drv_assigned (configure_saadc True True True True adc_init) = [0, 1] \<and>
    (\<exists>s'. converter_cycles (configure_saadc True True True True adc_init) blocks [] =
             Inr (map (\<lambda>k. k mod 2) [0..<length blocks], s') \<and>
           drv_assigned s' = [0, 1] @ map (\<lambda>k. k mod 2) [0..<length blocks] \<and>
           saadc_current_buffer s' = of_nat (length blocks))"
proof -
  have "drv_assigned (configure_saadc True True True True adc_init) = [0, 1]"
    by (simp add: configure_saadc_def nrfx_saadc_buffer_set_def adc_init_def)
  moreover obtain s' where
    "converter_cycles (configure_saadc True True True True adc_init) blocks [] =
       Inr ([] @ map (\<lambda>k. k mod 2) [0..<0 + length blocks], s')"
    and "rotation_inv (0 + length blocks) s'"
    using converter_cycles_run[OF configure_saadc_rotation assms, of "[]"] by blast
  ultimately show ?thesis by (auto simp add: rotation_inv_def)
qed

theorem C4_block_rotation_witness:
  "[1 :: int16_t] \<noteq> [] \<and> [2 :: int16_t] \<noteq> [] \<and> [3 :: int16_t] \<noteq> [] \<and>
   (\<exists>s'. converter_cycles (configure_saadc True True True True adc_init) [[1], [2], [3]] [] =
            Inr ([0, 1, 0], s') \<and>
          drv_assigned s' = [0, 1, 0, 1, 0])"
proof -
  have h: "\<forall>B\<in>set [[1], [2], [3 :: int16_t]]. B \<noteq> []" by simp
  have m: "map (\<lambda>k. k mod 2) [0..<length [[1], [2], [3 :: int16_t]]] = [0, 1, 0]"
    by (simp add: upt_rec)
  show ?thesis
    using h C4_block_rotation[OF h] unfolding m by auto
qed

section \<open>The timer interval\<close>

text \<open>
  C8, as amended. For the configured rate of 3000 Hz, the interval handed to the
  driver's conversion is the integer quotient \<open>1000000 div 3000 = 333\<close> microseconds (the
  remainder 1000 of the division is dropped), and with one tick per microsecond at the
  timer's 1 MHz the compare value programmed is 333.
\<close>

theorem C8_timer_interval:
  "SAADC_INTERVAL_US = 1000000 div ADC_SAMPLE_RATE_HZ \<and>
   SAADC_INTERVAL_US = 333 \<and>
   1000000 = SAADC_INTERVAL_US * ADC_SAMPLE_RATE_HZ + 1000 \<and>
   configure_timer nrfx_timer_us_to_ticks True =
     Some \<lparr> tm_frequency = 1000000, tm_cc0 = 333,
            tm_clear_on_compare = True, tm_compare_interrupt = False \<rparr> \<and>
   (\<forall>conv. \<exists>cfg. configure_timer conv True = Some cfg \<and> tm_cc0 cfg = conv 1000000 333)"
  by (simp add: SAADC_INTERVAL_US_def ADC_SAMPLE_RATE_HZ_def configure_timer_def
      nrfx_timer_us_to_ticks_def)

text \<open>
  C8 as stated fails: 333 is not the exact quotient of 1000000 by 3000.
\<close>

theorem C8_exact_quotient_counterexample:
  "real SAADC_INTERVAL_US \<noteq> 1000000 / real ADC_SAMPLE_RATE_HZ"
  by (simp add: SAADC_INTERVAL_US_def ADC_SAMPLE_RATE_HZ_def)


section \<open>The wireless write callback\<close>

lemma replicate_update_same: "(replicate n x)[i := x] = replicate n x"
  by (induction n arbitrary: i) (auto split: nat.split)

lemma offset_test: "(double_ge v (Finite (- 3.3)) \<and> double_le v (Finite 3.3)) = offset_in_range v"
  by (cases v) (simp_all add: double_ge_def offset_in_range_def)

lemma takeWhile_terminated:
  "takeWhile (\<lambda>c. c \<noteq> (0::uint8_t)) (xs @ 0 # ys) = takeWhile (\<lambda>c. c \<noteq> 0) xs"
  by (induction xs) simp_all

lemma received_buffer:
  assumes "length buf < length wb"
  shows "(buf @ drop (length buf) wb)[length buf := 0] = buf @ 0 # drop (Suc (length buf)) wb"
proof -
  have "drop (length buf) wb = wb ! length buf # drop (Suc (length buf)) wb"
    using assms by (simp add: Cons_nth_drop_Suc)
  then show ?thesis by (simp add: list_update_append)
qed

lemma c_str_received:
  assumes "length buf < length wb" "k \<le> length buf"
  shows "c_str ((buf @ drop (length buf) wb)[length buf := 0]) k =
         Inr (takeWhile (\<lambda>c. c \<noteq> 0) (drop k buf))"
  using assms by (simp add: received_buffer c_str_def takeWhile_terminated)

lemma nth_received:
  assumes "length buf < length wb" "i < length buf"
  shows "(buf @ drop (length buf) wb)[length buf := 0] ! i = buf ! i"
  using assms by (simp add: received_buffer nth_append)

lemma prefix_nths:
  assumes "take 5 buf = bytes ''DDSO:''"
  shows "5 \<le> length buf" "buf ! 0 = chr CHR ''D''" "buf ! 1 = chr CHR ''D''"
    "buf ! 2 = chr CHR ''S''" "buf ! 3 = chr CHR ''O''" "buf ! 4 = chr CHR '':''"
proof -
  have l: "length (take 5 buf) = 5" using assms by (simp add: bytes_def)
  then show 5: "5 \<le> length buf" by simp
  have n: "buf ! i = bytes ''DDSO:'' ! i" if "i < 5" for i
    using that assms nth_take[of i 5 buf] by simp
  show "buf ! 0 = chr CHR ''D''" using n[of 0] by (simp add: bytes_def chr_def)
  show "buf ! 1 = chr CHR ''D''" using n[of 1] by (simp add: bytes_def chr_def)
  show "buf ! 2 = chr CHR ''S''" using n[of 2] by (simp add: bytes_def chr_def)
  show "buf ! 3 = chr CHR ''O''" using n[of 3] by (simp add: bytes_def chr_def)
  show "buf ! 4 = chr CHR '':''" using n[of 4] by (simp add: bytes_def chr_def)
qed

text \<open>
  The offset command on a write that fits the receive buffer with its terminator
  (fewer than 20 bytes), \<open>val\<close> being what \<open>atof\<close> reads after the prefix \<open>DDSO:\<close>. If
  \<open>val\<close> is outside \<open>[-3.3, 3.3]\<close> (or is no number), the callback returns the written
  length, the result of every recognised command, and the state is as before except that
  the receive buffer holds the bytes of the write: no collaborator is invoked, the offset
  setter in particular. If \<open>val\<close> is inside the range, the one change more is the
  invocation of the offset setter with \<open>val\<close>. The two writes \<open>DDSO:5.0\<close> and \<open>DDSO:-1.0\<close>
  follow as examples.
\<close>

lemma offset_range_short_write:
  assumes size: "length (write_buffer s) = RECEIVE_BUFF_SIZE"
    and len: "length buf < RECEIVE_BUFF_SIZE"
    and cmd: "take 5 buf = bytes ''DDSO:''"
    and val: "val = atof e (takeWhile (\<lambda>c. c \<noteq> 0) (drop 5 buf))"
    and rcv: "s' = s\<lparr>write_buffer := (buf @ drop (length buf) (write_buffer s))[length buf := 0]\<rparr>"
  shows "(offset_in_range val \<longrightarrow>
            write_custom_value e s buf =
              Inr (Returned (int (length buf)),
                   s'\<lparr>collab_calls := collab_calls s @ [SetDdsOffset val]\<rparr>)) \<and>
         (\<not> offset_in_range val \<longrightarrow>
            write_custom_value e s buf = Inr (Returned (int (length buf)), s'))"
proof -
  let ?wb = "buf @ 0 # drop (Suc (length buf)) (write_buffer s)"
  have lt: "length buf < length (write_buffer s)" using size len by simp
  have rcv': "s' = s\<lparr>write_buffer := ?wb\<rparr>"
    unfolding rcv using received_buffer[OF lt] by simp
  note p = prefix_nths[OF cmd]
  have n: "?wb ! 0 = chr CHR ''D''" "?wb ! 1 = chr CHR ''D''" "?wb ! 2 = chr CHR ''S''"
    "?wb ! 3 = chr CHR ''O''" "?wb ! 4 = chr CHR '':''"
    using p by (auto simp add: nth_append)
  have cs: "c_str ?wb 5 = Inr (takeWhile (\<lambda>c. c \<noteq> 0) (drop 5 buf))"
    using c_str_received[OF lt p(1)] received_buffer[OF lt] by simp
  have ne: "chr CHR ''D'' \<noteq> chr CHR ''S''" "chr CHR ''O'' \<noteq> chr CHR ''A''"
    by (simp_all add: chr_def)
  have d: "write_custom_value_dispatch e s' (length buf) =
     (if offset_in_range val
      then Inr (Returned (int (length buf)), s'\<lparr>collab_calls := collab_calls s' @ [SetDdsOffset val]\<rparr>)
      else Inr (Returned (int (length buf)), s'))"
    unfolding write_custom_value_dispatch_def rcv'
    using n cs ne by (simp add: Let_def offset_test val)
  have w: "write_custom_value e s buf = write_custom_value_dispatch e s' (length buf)"
    using lt by (simp add: write_custom_value_def Let_def rcv)
  show ?thesis unfolding w d by (simp add: rcv)
qed

lemma decimal_atof_5: "decimal_atof (bytes ''5.0'') = Finite 5"
  by (simp add: decimal_atof_def bytes_def chr_def is_digit_def)

lemma decimal_atof_minus_1: "decimal_atof (bytes ''-1.0'') = Finite (- 1)"
  by (simp add: decimal_atof_def bytes_def chr_def is_digit_def)

lemma offset_range_examples:
  "\<forall>e.
     write_custom_value (e\<lparr>atof := decimal_atof\<rparr>) ble_init (bytes ''DDSO:5.0'') =
       Inr (Returned 8, ble_init\<lparr>write_buffer := bytes ''DDSO:5.0'' @ replicate 12 0\<rparr>) \<and>
     write_custom_value (e\<lparr>atof := decimal_atof\<rparr>) ble_init (bytes ''DDSO:-1.0'') =
       Inr (Returned 9, ble_init\<lparr>write_buffer := bytes ''DDSO:-1.0'' @ replicate 11 0,
                                 collab_calls := [SetDdsOffset (Finite (- 1))]\<rparr>)"
proof
  fix e :: extern_env
  let ?e = "e\<lparr>atof := decimal_atof\<rparr>"
  have size: "length (write_buffer ble_init) = RECEIVE_BUFF_SIZE" by (simp add: ble_init_def)
  have l1: "length (bytes ''DDSO:5.0'') < RECEIVE_BUFF_SIZE"
    and l2: "length (bytes ''DDSO:-1.0'') < RECEIVE_BUFF_SIZE"
    by (simp_all add: bytes_def RECEIVE_BUFF_SIZE_def)
  have c1: "take 5 (bytes ''DDSO:5.0'') = bytes ''DDSO:''"
    and c2: "take 5 (bytes ''DDSO:-1.0'') = bytes ''DDSO:''"
    by (simp_all add: bytes_def)
  have v1: "Finite 5 = atof ?e (takeWhile (\<lambda>c. c \<noteq> 0) (drop 5 (bytes ''DDSO:5.0'')))"
    using decimal_atof_5 by (simp add: bytes_def)
  have v2: "Finite (- 1) = atof ?e (takeWhile (\<lambda>c. c \<noteq> 0) (drop 5 (bytes ''DDSO:-1.0'')))"
    using decimal_atof_minus_1 by (simp add: bytes_def)
  have r1: "\<not> offset_in_range (Finite 5)" and r2: "offset_in_range (Finite (- 1))"
    by (simp_all add: offset_in_range_def)
  have s1: "ble_init\<lparr>write_buffer := bytes ''DDSO:5.0'' @ replicate 12 0\<rparr> =
     ble_init\<lparr>write_buffer := (bytes ''DDSO:5.0'' @ drop (length (bytes ''DDSO:5.0''))
        (write_buffer ble_init))[length (bytes ''DDSO:5.0'') := 0]\<rparr>"
    by (simp add: ble_init_def bytes_def RECEIVE_BUFF_SIZE_def replicate_update_same)
  have s2: "ble_init\<lparr>write_buffer := bytes ''DDSO:-1.0'' @ replicate 11 0\<rparr> =
     ble_init\<lparr>write_buffer := (bytes ''DDSO:-1.0'' @ drop (length (bytes ''DDSO:-1.0''))
        (write_buffer ble_init))[length (bytes ''DDSO:-1.0'') := 0]\<rparr>"
    by (simp add: ble_init_def bytes_def RECEIVE_BUFF_SIZE_def replicate_update_same)
  have "write_custom_value ?e ble_init (bytes ''DDSO:5.0'') =
       Inr (Returned 8, ble_init\<lparr>write_buffer := bytes ''DDSO:5.0'' @ replicate 12 0\<rparr>)"
    using offset_range_short_write[OF size l1 c1 v1 s1] r1 by (simp add: bytes_def)
  moreover have "write_custom_value ?e ble_init (bytes ''DDSO:-1.0'') =
       Inr (Returned 9, ble_init\<lparr>write_buffer := bytes ''DDSO:-1.0'' @ replicate 11 0,
                                 collab_calls := [SetDdsOffset (Finite (- 1))]\<rparr>)"
    using offset_range_short_write[OF size l2 c2 v2 s2] r2 by (simp add: bytes_def ble_init_def)
  ultimately show "write_custom_value ?e ble_init (bytes ''DDSO:5.0'') =
       Inr (Returned 8, ble_init\<lparr>write_buffer := bytes ''DDSO:5.0'' @ replicate 12 0\<rparr>) \<and>
     write_custom_value ?e ble_init (bytes ''DDSO:-1.0'') =
       Inr (Returned 9, ble_init\<lparr>write_buffer := bytes ''DDSO:-1.0'' @ replicate 11 0,
                                 collab_calls := [SetDdsOffset (Finite (- 1))]\<rparr>)"
    by simp
qed

text \<open>
  C6. An offset command of 20 bytes, the size of the receive buffer: \<open>DDSO:\<close> followed by
  the 15 bytes \<open>5.0000000000000\<close> (a value outside \<open>[-3.3, 3.3]\<close>), or by
  \<open>-1.000000000000\<close> (a value inside). The copy fills the receive buffer and the
  terminator is stored at index 20, one past its end, before the chain is reached: the
  callback does not get to reject the first value without a change of state, nor to hand
  the second to the offset setter. It is the store of C10.
\<close>

theorem C6_offset_write_of_20_bytes:
  "take 5 (bytes ''DDSO:5.0000000000000'') = bytes ''DDSO:'' \<and>
   length (bytes ''DDSO:5.0000000000000'') = RECEIVE_BUFF_SIZE \<and>
   decimal_atof (bytes ''5.0000000000000'') = Finite 5 \<and>
   write_custom_value e ble_init (bytes ''DDSO:5.0000000000000'') = Inl (StoreOutOfBounds 20) \<and>
   take 5 (bytes ''DDSO:-1.000000000000'') = bytes ''DDSO:'' \<and>
   length (bytes ''DDSO:-1.000000000000'') = RECEIVE_BUFF_SIZE \<and>
   decimal_atof (bytes ''-1.000000000000'') = Finite (- 1) \<and>
   write_custom_value e ble_init (bytes ''DDSO:-1.000000000000'') = Inl (StoreOutOfBounds 20)"
  by (simp add: write_custom_value_def ble_init_def bytes_def RECEIVE_BUFF_SIZE_def
      decimal_atof_def chr_def is_digit_def)

text \<open>
  C7. A write that none of the branches recognises, the five bytes \<open>HELLO\<close>, leaves the
  state as it was but for the receive buffer; control then reaches the end of the
  function, which has no \<open>return\<close> there: the callback hands back no value, not the written
  length 5 that a recognised command such as \<open>OFF\<close> returns.
\<close>

theorem C7_unrecognized_no_return:
  "write_custom_value e ble_init (bytes ''HELLO'') =
     Inr (NoReturnValue, ble_init\<lparr>write_buffer := bytes ''HELLO'' @ replicate 15 0\<rparr>) \<and>
   write_custom_value e ble_init (bytes ''HELLO'') \<noteq>
     Inr (Returned 5, ble_init\<lparr>write_buffer := bytes ''HELLO'' @ replicate 15 0\<rparr>) \<and>
   write_custom_value e ble_init (bytes ''OFF'') =
     Inr (Returned 3, ble_init\<lparr>write_buffer := bytes ''OFF'' @ replicate 17 0,
                               collab_calls := [PowerDown]\<rparr>)"
  by (simp add: write_custom_value_def write_custom_value_dispatch_def ble_init_def bytes_def
       chr_def RECEIVE_BUFF_SIZE_def replicate_update_same)

text \<open>
  C10. A write of 20 bytes, the size of the receive buffer: the copy fills the buffer
  and the terminator is stored at index 20, one past its end.
\<close>

theorem C10_terminator_out_of_bounds:
  "write_custom_value e ble_init (bytes ''SDDS:100000000000000'') = Inl (StoreOutOfBounds 20) \<and>
   length (bytes ''SDDS:100000000000000'') = RECEIVE_BUFF_SIZE \<and>
   length (write_buffer ble_init) = RECEIVE_BUFF_SIZE"
  by (simp add: write_custom_value_def ble_init_def bytes_def RECEIVE_BUFF_SIZE_def)

subsection \<open>Writes shorter than the receive buffer\<close>

text \<open>
  The stores of the callback are inside the receive buffer exactly for writes of fewer
  than 20 bytes; for these, from a buffer whose last byte is NUL, the callback runs
  through without a fault and keeps that byte NUL. Whatever no branch recognises ends
  without a returned value.
\<close>

lemma dispatch_shape: "dispatch_frame s (write_custom_value_dispatch e s len)"
proof -
  have ifQ: "dispatch_frame s (if c then a else b)"
    if "c \<Longrightarrow> dispatch_frame s a" "\<not> c \<Longrightarrow> dispatch_frame s b" for c a b
    using that by simp
  have strQ: "dispatch_frame s (case c_str (write_buffer s) k of Inl f \<Rightarrow> Inl f | Inr str \<Rightarrow> F str)"
    if "\<And>str. dispatch_frame s (F str)" for k F
  proof (cases "c_str (write_buffer s) k")
    case (Inl f)
    then show ?thesis by (simp add: dispatch_frame_def c_str_def split: if_splits)
  next
    case (Inr str)
    then show ?thesis using that[of str] by simp
  qed
  show ?thesis
    unfolding write_custom_value_dispatch_def Let_def
    by (intro ifQ strQ; simp add: dispatch_frame_def)
qed


lemma write_store_fault_iff:
  assumes "length (write_buffer s) = RECEIVE_BUFF_SIZE"
  shows "(\<exists>i. write_custom_value e s buf = Inl (StoreOutOfBounds i)) \<longleftrightarrow>
         RECEIVE_BUFF_SIZE \<le> length buf"
proof (cases "RECEIVE_BUFF_SIZE \<le> length buf")
  case True
  then show ?thesis using assms by (auto simp add: write_custom_value_def Let_def)
next
  case False
  let ?s = "s\<lparr>write_buffer := (buf @ drop (length buf) (write_buffer s))[length buf := 0]\<rparr>"
  have w: "write_custom_value e s buf = write_custom_value_dispatch e ?s (length buf)"
    using False assms by (simp add: write_custom_value_def Let_def)
  have "write_custom_value_dispatch e ?s (length buf) \<noteq> Inl (StoreOutOfBounds i)" for i
    using dispatch_shape[of ?s e "length buf"] by (auto simp add: dispatch_frame_def)
  then show ?thesis using False w by simp
qed

lemma write_flags_monotone:
  assumes "write_custom_value e s buf = Inr (r, s')"
  shows "(on_received s \<longrightarrow> on_received s') \<and> (start_received s \<longrightarrow> start_received s')"
proof -
  let ?s = "s\<lparr>write_buffer := (buf @ drop (length buf) (write_buffer s))[length buf := 0]\<rparr>"
  have "write_custom_value_dispatch e ?s (length buf) = Inr (r, s')"
    using assms by (simp add: write_custom_value_def Let_def split: if_splits)
  then show ?thesis
    using dispatch_shape[of ?s e "length buf"] by (simp add: dispatch_frame_def)
qed

lemma c_str_terminated:
  assumes "a \<noteq> []" "last a = 0" "k < length a"
  shows "\<exists>str. c_str a k = Inr str"
proof -
  have "last (drop k a) = 0" using assms by simp
  moreover have "drop k a \<noteq> []" using assms by simp
  ultimately have "0 \<in> set (drop k a)" by (metis last_in_set)
  then show ?thesis by (simp add: c_str_def)
qed

lemma dispatch_returns:
  assumes "wb_inv s"
  shows "\<exists>r s'. write_custom_value_dispatch e s len = Inr (r, s') \<and> wb_inv s'"
proof -
  define Q where "Q x \<longleftrightarrow> (\<exists>r s'. x = Inr (r, s') \<and> wb_inv s')"
    for x :: "fault + (retval \<times> ble_state)"
  have ln: "length (write_buffer s) = 20" and z: "write_buffer s ! 19 = 0"
    using assms by (simp_all add: wb_inv_def RECEIVE_BUFF_SIZE_def)
  have ne: "write_buffer s \<noteq> []" using ln by auto
  have la: "last (write_buffer s) = 0" using ne ln z by (simp add: last_conv_nth)
  have ifQ: "Q (if c then a else b)" if "c \<Longrightarrow> Q a" "\<not> c \<Longrightarrow> Q b" for c a b
    using that by simp
  have strQ: "Q (case c_str (write_buffer s) k of Inl f \<Rightarrow> Inl f | Inr str \<Rightarrow> F str)"
    if h1: "\<And>str. Q (F str)" and h2: "k < 20" for k F
  proof -
    obtain str where "c_str (write_buffer s) k = Inr str"
      using c_str_terminated[OF ne la, of k] h2 ln by auto
    then show ?thesis using h1[of str] by simp
  qed
  have retQ: "Q (Inr (r, s'))" if "write_buffer s' = write_buffer s" for r s'
    using that assms by (simp add: Q_def wb_inv_def)
  have "Q (write_custom_value_dispatch e s len)"
    unfolding write_custom_value_dispatch_def Let_def
    by (intro ifQ strQ retQ; simp)
  then show ?thesis by (simp add: Q_def)
qed

lemma write_custom_value_returns:
  assumes "wb_inv s" "length buf < RECEIVE_BUFF_SIZE"
  shows "\<exists>r s'. write_custom_value e s buf = Inr (r, s') \<and> wb_inv s'"
proof -
  let ?wb = "(buf @ drop (length buf) (write_buffer s))[length buf := 0]"
  let ?s = "s\<lparr>write_buffer := ?wb\<rparr>"
  have l: "length (write_buffer s) = 20" and z: "write_buffer s ! 19 = 0"
    using assms(1) by (simp_all add: wb_inv_def RECEIVE_BUFF_SIZE_def)
  have lb: "length buf < 20" using assms(2) by (simp add: RECEIVE_BUFF_SIZE_def)
  have "?wb ! 19 = 0"
  proof (cases "length buf = 19")
    case True
    then show ?thesis using l by simp
  next
    case False
    then have "?wb ! 19 = (buf @ drop (length buf) (write_buffer s)) ! 19" by simp
    also have "\<dots> = write_buffer s ! 19" using lb l by (simp add: nth_append)
    finally show ?thesis using z by simp
  qed
  then have "wb_inv ?s" using l lb by (simp add: wb_inv_def RECEIVE_BUFF_SIZE_def)
  from dispatch_returns[OF this, of e "length buf"]
  show ?thesis using l lb by (simp add: write_custom_value_def Let_def)
qed

lemma unrecognised_no_return:
  assumes "\<not> recognised (write_buffer s)"
  shows "write_custom_value_dispatch e s len = Inr (NoReturnValue, s)"
  using assms unfolding recognised_def de_Morgan_disj write_custom_value_dispatch_def Let_def
  by (simp only: if_False)

lemma unrecognised_write_no_return:
  assumes "length buf < length (write_buffer s)"
    and "\<not> recognised ((buf @ drop (length buf) (write_buffer s))[length buf := 0])"
  shows "write_custom_value e s buf =
           Inr (NoReturnValue,
                s\<lparr>write_buffer := (buf @ drop (length buf) (write_buffer s))[length buf := 0]\<rparr>)"
proof -
  let ?s = "s\<lparr>write_buffer := (buf @ drop (length buf) (write_buffer s))[length buf := 0]\<rparr>"
  have "\<not> recognised (write_buffer ?s)" using assms(2) by simp
  then have "write_custom_value_dispatch e ?s (length buf) = Inr (NoReturnValue, ?s)"
    by (rule unrecognised_no_return)
  then show ?thesis using assms(1) by (simp add: write_custom_value_def Let_def)
qed

section \<open>The command gate\<close>

text \<open>
  Both observers are false at the start. The flags of the wireless module are only ever
  set: once a wireless \<open>ON\<close> or \<open>START\<close> has been written, the observer stays true
  whatever happens next.
\<close>

lemma gate_init_not_requested:
  "\<not> power_requested gate_init \<and> \<not> start_requested gate_init"
  by (simp add: power_requested_def start_requested_def gate_init_def main_init_def ble_init_def
      ble_on_received_def ble_start_received_def)

lemma gate_step_wireless_flags:
  assumes "gate_step e g ev = Inr g'"
  shows "(on_received (gt_ble g) \<longrightarrow> on_received (gt_ble g')) \<and>
         (start_received (gt_ble g) \<longrightarrow> start_received (gt_ble g'))"
proof (cases ev)
  case MainStep
  then show ?thesis using assms by (cases "gt_pc g") auto
next
  case (UartRxRdy c)
  then show ?thesis using assms by (auto split: sum.splits)
next
  case (BleWrite buf)
  then show ?thesis using assms write_flags_monotone[of e "gt_ble g" buf]
    by (auto split: sum.splits)
qed

lemma gate_run_wireless_flags:
  "gate_run e g evs = Inr g' \<Longrightarrow>
   (on_received (gt_ble g) \<longrightarrow> on_received (gt_ble g')) \<and>
   (start_received (gt_ble g) \<longrightarrow> start_received (gt_ble g'))"
proof (induction evs arbitrary: g)
  case Nil
  then show ?case by simp
next
  case (Cons ev evs)
  then obtain g1 where s: "gate_step e g ev = Inr g1" and r: "gate_run e g1 evs = Inr g'"
    by (auto split: sum.splits)
  from gate_step_wireless_flags[OF s] Cons.IH[OF r] show ?case by blast
qed

lemma wireless_command_permanent:
  assumes "gate_run e g evs = Inr g'"
  shows "(ble_on_received (gt_ble g) \<longrightarrow> power_requested g') \<and>
         (ble_start_received (gt_ble g) \<longrightarrow> start_requested g')"
  using gate_run_wireless_flags[OF assms]
  by (simp add: power_requested_def start_requested_def ble_on_received_def ble_start_received_def)

lemma uart_on_run:
  "cmd_index m = 0 \<Longrightarrow> length (command_buffer m) = 32 \<Longrightarrow>
   gate_run e (g\<lparr>gt_main := m\<rparr>) serial_on =
     Inr (g\<lparr>gt_main := m\<lparr>command_buffer := (command_buffer m)[0 := chr CHR ''O'', 1 := chr CHR ''N'', 2 := 0],
                            on_recieved := True\<rparr>\<rparr>)"
  apply (cases "command_buffer m")
   apply simp
  subgoal for a as
    apply (cases as) apply simp
    subgoal for b bs
      apply (cases bs) apply simp
      subgoal for c cs
        by (simp add: serial_on_def uart_cb_def valid_char_def chr_def Let_def c_str_def bytes_def)
      done
    done
  done


lemma uart_start_run:
  "cmd_index m = 0 \<Longrightarrow> length (command_buffer m) = 32 \<Longrightarrow>
   gate_run e (g\<lparr>gt_main := m\<rparr>) serial_start =
     Inr (g\<lparr>gt_main := m\<lparr>command_buffer := (command_buffer m)[0 := chr CHR ''S'', 1 := chr CHR ''T'',
                 2 := chr CHR ''A'', 3 := chr CHR ''R'', 4 := chr CHR ''T'', 5 := 0],
                            main_start_received := True\<rparr>\<rparr>)"
  apply (cases "command_buffer m") apply simp
  subgoal for x0 r0
   apply (cases r0) apply simp
   subgoal for x1 r1
    apply (cases r1) apply simp
    subgoal for x2 r2
     apply (cases r2) apply simp
     subgoal for x3 r3
      apply (cases r3) apply simp
      subgoal for x4 r4
       apply (cases r4) apply simp
       subgoal for x5 r5
        by (simp add: serial_start_def uart_cb_def valid_char_def chr_def Let_def c_str_def bytes_def)
       done
      done
     done
    done
   done
  done

text \<open>
  C5. The serial command \<open>ON\<close> arrives after the main thread has tested \<open>on_recieved\<close> in
  \<open>wait_for_on_command\<close> and before it executes \<open>on_recieved = ble_on_received()\<close>: the
  callback sets the flag, both observers of ``power requested'' are true, and the
  assignment then stores the wireless module's flag, which is false; both observers are
  false again. The same happens to \<open>START\<close> in \<open>wait_for_start_command\<close>, reached here after
  a wireless \<open>ON\<close>.
\<close>

theorem C5_serial_command_lost:
  "(\<exists>g1 g2.
      gate_run e gate_init (MainStep # serial_on) = Inr g1 \<and>
      on_recieved (gt_main g1) \<and> power_requested g1 \<and>
      gate_run e g1 [MainStep] = Inr g2 \<and>
      \<not> on_recieved (gt_main g2) \<and> \<not> power_requested g2) \<and>
   (\<exists>g1 g2.
      gate_run e gate_init (BleWrite (bytes ''ON'') # replicate 7 MainStep @ serial_start) = Inr g1 \<and>
      main_start_received (gt_main g1) \<and> start_requested g1 \<and>
      gate_run e g1 [MainStep] = Inr g2 \<and>
      \<not> main_start_received (gt_main g2) \<and> \<not> start_requested g2)"
proof
  let ?g0 = "gate_init\<lparr>gt_pc := On_assign\<rparr>"
  have a: "gate_run e gate_init (MainStep # serial_on) = gate_run e (?g0\<lparr>gt_main := main_init\<rparr>) serial_on"
    by (simp add: gate_init_def main_init_def)
  have b: "gate_run e (?g0\<lparr>gt_main := main_init\<rparr>) serial_on =
     Inr (?g0\<lparr>gt_main := main_init\<lparr>command_buffer :=
             (command_buffer main_init)[0 := chr CHR ''O'', 1 := chr CHR ''N'', 2 := 0],
           on_recieved := True\<rparr>\<rparr>)"
    by (rule uart_on_run) (simp_all add: main_init_def)
  show "\<exists>g1 g2.
      gate_run e gate_init (MainStep # serial_on) = Inr g1 \<and>
      on_recieved (gt_main g1) \<and> power_requested g1 \<and>
      gate_run e g1 [MainStep] = Inr g2 \<and>
      \<not> on_recieved (gt_main g2) \<and> \<not> power_requested g2"
    unfolding a b
    by (simp add: power_requested_def gate_init_def ble_on_received_def ble_init_def)
next
  let ?b = "ble_init\<lparr>write_buffer := bytes ''ON'' @ replicate 18 0, on_received := True,
      collab_calls := [PowerUp]\<rparr>"
  let ?g0 = "\<lparr>gt_main = main_init\<lparr>on_recieved := True\<rparr>, gt_ble = ?b, gt_pc = Start_assign\<rparr>"
  have w: "write_custom_value e ble_init (bytes ''ON'') = Inr (Returned 2, ?b)"
    by (simp add: write_custom_value_def write_custom_value_dispatch_def ble_init_def bytes_def
       chr_def RECEIVE_BUFF_SIZE_def replicate_update_same)
  have r7: "replicate 7 MainStep = [MainStep, MainStep, MainStep, MainStep, MainStep, MainStep, MainStep]"
    by (simp add: numeral_eq_Suc)
  have a: "gate_run e gate_init (BleWrite (bytes ''ON'') # replicate 7 MainStep @ serial_start) =
           gate_run e (?g0\<lparr>gt_main := main_init\<lparr>on_recieved := True\<rparr>\<rparr>) serial_start"
    unfolding r7 by (simp add: gate_init_def w main_init_def ble_on_received_def)
  have b: "gate_run e (?g0\<lparr>gt_main := main_init\<lparr>on_recieved := True\<rparr>\<rparr>) serial_start =
     Inr (?g0\<lparr>gt_main := main_init\<lparr>on_recieved := True,
           command_buffer := (command_buffer (main_init\<lparr>on_recieved := True\<rparr>))
              [0 := chr CHR ''S'', 1 := chr CHR ''T'', 2 := chr CHR ''A'', 3 := chr CHR ''R'',
               4 := chr CHR ''T'', 5 := 0],
           main_start_received := True\<rparr>\<rparr>)"
    by (rule uart_start_run) (simp_all add: main_init_def)
  show "\<exists>g1 g2.
      gate_run e gate_init (BleWrite (bytes ''ON'') # replicate 7 MainStep @ serial_start) = Inr g1 \<and>
      main_start_received (gt_main g1) \<and> start_requested g1 \<and>
      gate_run e g1 [MainStep] = Inr g2 \<and>
      \<not> main_start_received (gt_main g2) \<and> \<not> start_requested g2"
    unfolding a b
    by (simp add: start_requested_def ble_start_received_def ble_init_def)
qed

end
